theory Spec2Isabelle
  imports Complex_Main "HOL-Library.AList"
begin

section \<open>Numbers, vectors and dictionaries\<close>

text \<open>
  The program computes with Python floats and NumPy arrays of three floats. Here a float
  is a \<^typ>\<open>real\<close>: sums, products, quotients and comparisons are the exact ones, and
  rounding is not modelled. A frame index is a Python integer, an \<^typ>\<open>int\<close>.

  A Python \<open>dict\<close> keeps its keys in insertion order and holds each key once. It is an
  association list whose keys are distinct; \<open>d[k] = v\<close> is \<^const>\<open>AList.update\<close>
  (replace in place, or append at the end), \<open>d.get(k)\<close> is \<^const>\<open>map_of\<close>, and
  iterating \<open>d.items()\<close> walks the list from its head.
\<close>

type_synonym vec3 = "real \<times> real \<times> real"

type_synonym bbox = "real \<times> real \<times> real \<times> real"

type_synonym ('k, 'v) dict = "('k \<times> 'v) list"

definition keys :: "('k, 'v) dict \<Rightarrow> 'k list" where
  "keys d = map fst d"

definition dict_wf :: "('k, 'v) dict \<Rightarrow> bool" where
  "dict_wf d = distinct (keys d)"

text \<open>NumPy's elementwise difference, division by a scalar, \<open>np.zeros(3)\<close> and
  \<open>np.linalg.norm\<close> on vectors of length three.\<close>

fun vsub :: "vec3 \<Rightarrow> vec3 \<Rightarrow> vec3" where
  "vsub (a0, a1, a2) (b0, b1, b2) = (a0 - b0, a1 - b1, a2 - b2)"

fun vdiv :: "vec3 \<Rightarrow> real \<Rightarrow> vec3" where
  "vdiv (a0, a1, a2) c = (a0 / c, a1 / c, a2 / c)"

definition zeros3 :: vec3 where
  "zeros3 = (0, 0, 0)"

fun norm3 :: "vec3 \<Rightarrow> real" where
  "norm3 (a0, a1, a2) = sqrt (a0 * a0 + a1 * a1 + a2 * a2)"

section \<open>SimpleTracker\<close>

subsection \<open>The overlap metric\<close>

text \<open>\<open>SimpleTracker.iou\<close>. A box is \<open>[x1, y1, x2, y2]\<close>; the source reads the four
  entries by index, here they are the components of a 4-tuple.\<close>

fun iou :: "bbox \<Rightarrow> bbox \<Rightarrow> real" where
  "iou (a0, a1, a2, a3) (b0, b1, b2, b3) =
     (let xA = max a0 b0;
          yA = max a1 b1;
          xB = min a2 b2;
          yB = min a3 b3;
          interArea = max 0 (xB - xA) * max 0 (yB - yA);
          boxAArea = max 0 (a2 - a0) * max 0 (a3 - a1);
          boxBArea = max 0 (b2 - b0) * max 0 (b3 - b1);
          unionArea = boxAArea + boxBArea - interArea
      in if unionArea \<le> 0 then 0 else interArea / (unionArea + 1 / 1000000))"





subsection \<open>Tracker state\<close>

text \<open>A detection as the detector hands it over (\<open>bbox\<close>, \<open>class\<close>, \<open>3D_position\<close>),
  and as \<open>assign_ids\<close> returns it, with the key \<open>velocity\<close> added.\<close>

record detection =
  det_bbox :: bbox
  det_class :: string
  det_position :: vec3

record tracked_detection = detection +
  det_velocity :: vec3

text \<open>The fields of \<open>SimpleTracker\<close>: a counter, four dictionaries keyed by track id, and
  the two parameters of the constructor.\<close>

record tracker =
  next_id :: nat
  boxes_2d :: "(nat, bbox) dict"
  positions_3d :: "(nat, vec3) dict"
  timestamps :: "(nat, int) dict"
  ages :: "(nat, int) dict"
  iou_threshold :: real
  max_age :: int

definition tracker_init :: "real \<Rightarrow> int \<Rightarrow> tracker" where
  "tracker_init thr age =
     \<lparr>next_id = 0, boxes_2d = [], positions_3d = [], timestamps = [], ages = [],
      iou_threshold = thr, max_age = age\<rparr>"

definition SimpleTracker :: tracker where
  "SimpleTracker = tracker_init (3 / 10) 30"

subsection \<open>Matching one detection\<close>

text \<open>The inner loop of \<open>assign_ids\<close> over \<open>self.boxes_2d.items()\<close>: its body for one
  entry, and the loop. The accumulator is the pair \<open>(matched_id, best_iou)\<close>, which
  starts as \<open>(None, 0)\<close>.\<close>

definition match_step ::
  "real \<Rightarrow> nat set \<Rightarrow> bbox \<Rightarrow> nat \<times> bbox \<Rightarrow> nat option \<times> real \<Rightarrow> nat option \<times> real" where
  "match_step thr used_ids db entry acc =
     (case entry of (obj_id, prev_box) \<Rightarrow>
      case acc of (matched_id, best_iou) \<Rightarrow>
        if obj_id \<in> used_ids then (matched_id, best_iou)
        else
          (let iou_score = iou db prev_box
           in if iou_score > thr \<and> iou_score > best_iou then (Some obj_id, iou_score)
              else (matched_id, best_iou)))"

fun match_loop ::
  "real \<Rightarrow> nat set \<Rightarrow> bbox \<Rightarrow> (nat, bbox) dict \<Rightarrow> nat option \<times> real \<Rightarrow> nat option \<times> real" where
  "match_loop thr used_ids db [] acc = acc"
| "match_loop thr used_ids db (entry # rest) acc =
     match_loop thr used_ids db rest (match_step thr used_ids db entry acc)"

text \<open>The four stores at the end of the body of the outer loop.\<close>

definition store_track :: "nat \<Rightarrow> bbox \<Rightarrow> vec3 \<Rightarrow> int \<Rightarrow> tracker \<Rightarrow> tracker" where
  "store_track matched_id db det_pos3d current_frame self =
     self\<lparr>boxes_2d := AList.update matched_id db (boxes_2d self),
          positions_3d := AList.update matched_id det_pos3d (positions_3d self),
          timestamps := AList.update matched_id current_frame (timestamps self),
          ages := AList.update matched_id 0 (ages self)\<rparr>"

text \<open>The body of the outer loop for one detection: the entry appended to \<open>assigned\<close>,
  the tracker after the four stores, and \<open>used_ids\<close> after \<open>add\<close>.\<close>

definition assign_one ::
  "int \<Rightarrow> detection \<Rightarrow> tracker \<Rightarrow> nat set \<Rightarrow> (nat \<times> tracked_detection) \<times> tracker \<times> nat set" where
  "assign_one current_frame det self used_ids =
     (let db = det_bbox det;
          det_pos3d = det_position det;
          found = fst (match_loop (iou_threshold self) used_ids db (boxes_2d self) (None, 0));
          matched_id = (case found of None \<Rightarrow> next_id self | Some i \<Rightarrow> i);
          self1 = (case found of None \<Rightarrow> self\<lparr>next_id := next_id self + 1\<rparr> | Some i \<Rightarrow> self);
          used1 = insert matched_id used_ids;
          prev_pos3d = map_of (positions_3d self1) matched_id;
          prev_time = (case map_of (timestamps self1) matched_id of
                         None \<Rightarrow> current_frame | Some p \<Rightarrow> p);
          dt = max (current_frame - prev_time) 1;
          velocity = (case prev_pos3d of
                        None \<Rightarrow> zeros3
                      | Some p \<Rightarrow> if dt > 0 then vdiv (vsub det_pos3d p) (real_of_int dt)
                                  else zeros3)
      in ((matched_id,
           \<lparr>det_bbox = det_bbox det, det_class = det_class det,
            det_position = det_position det, det_velocity = velocity\<rparr>),
          store_track matched_id db det_pos3d current_frame self1, used1))"

text \<open>The outer loop, in the order of the input list.\<close>

fun assign_loop ::
  "int \<Rightarrow> detection list \<Rightarrow> tracker \<Rightarrow> nat set \<Rightarrow>
     (nat \<times> tracked_detection) list \<times> tracker \<times> nat set" where
  "assign_loop current_frame [] self used_ids = ([], self, used_ids)"
| "assign_loop current_frame (det # dets) self used_ids =
     (case assign_one current_frame det self used_ids of
        (entry, self1, used1) \<Rightarrow>
          (case assign_loop current_frame dets self1 used1 of
             (assigned, self2, used2) \<Rightarrow> (entry # assigned, self2, used2)))"

subsection \<open>Ageing and purging\<close>

text \<open>\<open>self.ages[obj_id] += 1\<close> for every key outside \<open>used_ids\<close>: each key occurs once,
  so the loop is a map over the entries, in place.\<close>

definition age_unclaimed :: "nat set \<Rightarrow> (nat, int) dict \<Rightarrow> (nat, int) dict" where
  "age_unclaimed used_ids d =
     map (\<lambda>(obj_id, age). if obj_id \<notin> used_ids then (obj_id, age + 1) else (obj_id, age)) d"

text \<open>The comprehension \<open>{oid: d[oid] for oid in active_ids if oid in d}\<close>.\<close>

definition restrict_ids :: "nat list \<Rightarrow> (nat, 'v) dict \<Rightarrow> (nat, 'v) dict" where
  "restrict_ids active_ids d =
     List.map_filter
       (\<lambda>oid. case map_of d oid of None \<Rightarrow> None | Some v \<Rightarrow> Some (oid, v)) active_ids"

definition purge :: "nat set \<Rightarrow> tracker \<Rightarrow> tracker" where
  "purge used_ids self =
     (let ages1 = age_unclaimed used_ids (ages self);
          active_ids = map fst (filter (\<lambda>(oid, age). age \<le> max_age self) ages1)
      in self\<lparr>boxes_2d := restrict_ids active_ids (boxes_2d self),
               positions_3d := restrict_ids active_ids (positions_3d self),
               timestamps := restrict_ids active_ids (timestamps self),
               ages := restrict_ids active_ids ages1\<rparr>)"

text \<open>\<open>SimpleTracker.assign_ids\<close>: the returned list and the tracker afterwards.\<close>

definition assign_ids ::
  "tracker \<Rightarrow> detection list \<Rightarrow> int \<Rightarrow> (nat \<times> tracked_detection) list \<times> tracker" where
  "assign_ids self detections current_frame =
     (case assign_loop current_frame detections self {} of
        (assigned, self1, used_ids) \<Rightarrow> (assigned, purge used_ids self1))"

text \<open>The main loop calls \<open>assign_ids\<close> once per frame; a run over several frames threads
  the tracker through and collects the returned lists.\<close>

fun run_frames ::
  "tracker \<Rightarrow> (detection list \<times> int) list \<Rightarrow> (nat \<times> tracked_detection) list list \<times> tracker" where
  "run_frames self [] = ([], self)"
| "run_frames self ((detections, current_frame) # rest) =
     (case assign_ids self detections current_frame of
        (assigned, self1) \<Rightarrow>
          (case run_frames self1 rest of (outs, self2) \<Rightarrow> (assigned # outs, self2)))"

text \<open>What the constructor establishes and every call keeps: the four dictionaries hold
  the same ids in the same order, each once, and every id is below the counter.\<close>

definition tracker_inv :: "tracker \<Rightarrow> bool" where
  "tracker_inv self =
     (distinct (keys (boxes_2d self)) \<and>
      keys (positions_3d self) = keys (boxes_2d self) \<and>
      keys (timestamps self) = keys (boxes_2d self) \<and>
      keys (ages self) = keys (boxes_2d self) \<and>
      list_all (\<lambda>k. k < next_id self) (keys (boxes_2d self)))"

text \<open>What holds after the outer loop has run over \<open>dets\<close> from the tracker \<open>self\<close> with
  the claimed ids \<open>U\<close>, for the list \<open>out\<close> it appended and the tracker \<open>s'\<close> it left.\<close>

definition loop_post ::
  "int \<Rightarrow> detection list \<Rightarrow> tracker \<Rightarrow> nat set \<Rightarrow> (nat \<times> tracked_detection) list \<Rightarrow> tracker \<Rightarrow> bool" where
  "loop_post frame dets self U out s' =
     (tracker_inv s' \<and> (\<forall>u\<in>U \<union> fst ` set out. u < next_id s') \<and>
      iou_threshold s' = iou_threshold self \<and> max_age s' = max_age self \<and>
      next_id self \<le> next_id s' \<and>
      distinct (map fst out) \<and> fst ` set out \<inter> U = {} \<and>
      (\<forall>i\<in>fst ` set out. map_of (boxes_2d self) i \<noteq> None \<or> next_id self \<le> i) \<and>
      map (\<lambda>p. detection.truncate (snd p)) out = dets \<and>
      (\<forall>i d. (i, d) \<in> set out \<longrightarrow>
         map_of (boxes_2d s') i = Some (det_bbox d) \<and>
         map_of (positions_3d s') i = Some (det_position d) \<and>
         map_of (timestamps s') i = Some frame \<and>
         map_of (ages s') i = Some 0) \<and>
      (\<forall>k. k \<notin> fst ` set out \<longrightarrow>
         map_of (boxes_2d s') k = map_of (boxes_2d self) k \<and>
         map_of (positions_3d s') k = map_of (positions_3d self) k \<and>
         map_of (timestamps s') k = map_of (timestamps self) k \<and>
         map_of (ages s') k = map_of (ages self) k))"

section \<open>MentalMap3D\<close>

record info =
  info_class :: string
  info_position :: vec3
  info_velocity :: vec3
  info_last_seen :: real

record mental_map =
  mmap :: "(nat, info) dict"
  keep_seconds :: real

definition MentalMap3D :: mental_map where
  "MentalMap3D = \<lparr>mmap = [], keep_seconds = 5\<rparr>"

text \<open>The dictionary stored for one reported detection.\<close>

definition info_of :: "tracked_detection \<Rightarrow> real \<Rightarrow> info" where
  "info_of det current_time =
     \<lparr>info_class = det_class det, info_position = det_position det,
      info_velocity = det_velocity det, info_last_seen = current_time\<rparr>"

text \<open>The loop of \<open>update\<close> over \<open>tracked_objects\<close>.\<close>

fun upsert_all :: "real \<Rightarrow> (nat \<times> tracked_detection) list \<Rightarrow> (nat, info) dict \<Rightarrow> (nat, info) dict" where
  "upsert_all current_time [] m = m"
| "upsert_all current_time ((obj_id, det) # rest) m =
     upsert_all current_time rest (AList.update obj_id (info_of det current_time) m)"

text \<open>\<open>MentalMap3D.update\<close>; the value of \<open>time.time()\<close> is the argument \<open>current_time\<close>.\<close>

definition update :: "mental_map \<Rightarrow> (nat \<times> tracked_detection) list \<Rightarrow> real \<Rightarrow> mental_map" where
  "update self tracked_objects current_time =
     self\<lparr>mmap :=
       filter (\<lambda>(oid, info). current_time - info_last_seen info \<le> keep_seconds self)
         (upsert_all current_time tracked_objects (mmap self))\<rparr>"

section \<open>Prioritisation\<close>

text \<open>The literal table of \<open>prioritize_objects\<close> with \<open>.get(cls, 2)\<close>.\<close>

definition type_score :: "string \<Rightarrow> real" where
  "type_score c =
     (case map_of
        [(''person'', 5), (''car'', 6), (''truck'', 6), (''bus'', 6),
         (''bicycle'', 4), (''motorcycle'', 5), (''traffic light'', 3),
         (''stop sign'', 4), (''bench'', 2), (''chair'', 2),
         (''dog'', 4), (''cat'', 3)] c of
        None \<Rightarrow> 2 | Some s \<Rightarrow> s)"

text \<open>\<open>np.arctan2(y, x)\<close>, the angle of the point \<open>(x, y)\<close> in \<open>(-pi, pi]\<close>.\<close>

definition arctan2 :: "real \<Rightarrow> real \<Rightarrow> real" where
  "arctan2 y x =
     (if x > 0 then arctan (y / x)
      else if x < 0 then (if y \<ge> 0 then arctan (y / x) + pi else arctan (y / x) - pi)
      else if y > 0 then pi / 2
      else if y < 0 then - pi / 2
      else 0)"

text \<open>The score that the loop of \<open>prioritize_objects\<close> computes for one entry.\<close>

definition score :: "info \<Rightarrow> real" where
  "score ent =
     (case info_position ent of (p0, p1, p2) \<Rightarrow>
      case info_velocity ent of (v0, v1, v2) \<Rightarrow>
        (let distance = norm3 (info_position ent);
             velocity_magnitude = norm3 (info_velocity ent);
             velocity_score = (if velocity_magnitude > 1 / 100 then max 0 (- v2) else 0);
             fov_angle = arctan2 \<bar>p0\<bar> (max p2 (1 / 10));
             fov_factor = (if fov_angle < pi / 4 then 1 else 1 / 2);
             urgency = (if distance < 2 then 1 else 1 / 2)
         in (3 / 10 * type_score (info_class ent) + 3 / 10 * (1 / (distance + 1 / 2)) +
             2 / 10 * velocity_score + 2 / 10 * urgency) * fov_factor))"

text \<open>The slice \<open>xs[:n]\<close> of Python: a negative \<open>n\<close> counts from the end.\<close>

definition slice_to :: "int \<Rightarrow> 'a list \<Rightarrow> 'a list" where
  "slice_to n xs = (if 0 \<le> n then take (nat n) xs else take (length xs - nat (- n)) xs)"

text \<open>\<open>prioritize_objects\<close>. \<open>sort(reverse=True, key=...)\<close> is stable and descending in
  the key: a stable ascending sort on the negated score. The argument \<open>user_forward\<close> is
  never read.\<close>

definition prioritize_objects :: "(nat, info) dict \<Rightarrow> int \<Rightarrow> (nat \<times> info) list" where
  "prioritize_objects mental_map top_n =
     (let scored_objects = map (\<lambda>(obj_id, ent). (score ent, obj_id, ent)) mental_map;
          sorted_objects = sort_key (\<lambda>x. - fst x) scored_objects
      in map (\<lambda>(s, oid, ent). (oid, ent)) (slice_to top_n sorted_objects))"

text \<open>The list \<open>scored_objects\<close> after the sort.\<close>

definition scored :: "(nat, info) dict \<Rightarrow> (real \<times> nat \<times> info) list" where
  "scored m = sort_key (\<lambda>x. - fst x) (map (\<lambda>(obj_id, ent). (score ent, obj_id, ent)) m)"

section \<open>Situation analysis\<close>

record alert =
  alert_object :: string
  alert_direction :: string
  alert_urgency :: string
  alert_distance :: real

record moving_object =
  mov_object :: string
  mov_direction :: string
  mov_distance :: real

record obstacle =
  obs_object :: string
  obs_distance :: real

record situation =
  urgent_alerts :: "alert list"
  path_status :: string
  obstacles :: "obstacle list"
  moving_objects :: "moving_object list"

text \<open>The locals of the first loop of \<open>analyze_situation\<close>.\<close>

definition direction_of :: "info \<Rightarrow> string" where
  "direction_of ent =
     (case info_position ent of (x, y, z) \<Rightarrow>
        if x < - (5 / 10) then ''left'' else if x > 5 / 10 then ''right'' else ''ahead'')"

definition is_moving :: "info \<Rightarrow> bool" where
  "is_moving ent = (norm3 (info_velocity ent) > 5 / 100)"

definition is_approaching :: "info \<Rightarrow> bool" where
  "is_approaching ent =
     (if is_moving ent then (case info_velocity ent of (v0, v1, v2) \<Rightarrow> v2 < - (2 / 100))
      else False)"

definition urgency_of :: "real \<Rightarrow> string" where
  "urgency_of distance =
     (if distance < 15 / 10 then ''very close''
      else if distance < 25 / 10 then ''approaching quickly''
      else ''approaching'')"

text \<open>The three dictionaries that the loop appends, one per bucket.\<close>

definition alert_of :: "info \<Rightarrow> alert" where
  "alert_of ent =
     \<lparr>alert_object = info_class ent, alert_direction = direction_of ent,
      alert_urgency = urgency_of (norm3 (info_position ent)),
      alert_distance = norm3 (info_position ent)\<rparr>"

definition moving_of :: "info \<Rightarrow> moving_object" where
  "moving_of ent =
     \<lparr>mov_object = info_class ent, mov_direction = direction_of ent,
      mov_distance = norm3 (info_position ent)\<rparr>"

definition obstacle_of :: "info \<Rightarrow> obstacle" where
  "obstacle_of ent = \<lparr>obs_object = info_class ent, obs_distance = norm3 (info_position ent)\<rparr>"

text \<open>The three tests of the \<open>if\<close>/\<open>elif\<close>/\<open>elif\<close> chain, each as it is written.\<close>

definition urgent_test :: "info \<Rightarrow> bool" where
  "urgent_test ent = (is_approaching ent \<and> norm3 (info_position ent) < 3)"

definition moving_test :: "info \<Rightarrow> bool" where
  "moving_test ent = (is_moving ent \<and> norm3 (info_position ent) < 4)"

definition obstacle_test :: "info \<Rightarrow> bool" where
  "obstacle_test ent =
     (\<not> is_moving ent \<and> direction_of ent = ''ahead'' \<and> norm3 (info_position ent) < 3)"

text \<open>The body of the first loop: the chain for one entry.\<close>

definition analyze_entry :: "situation \<Rightarrow> nat \<times> info \<Rightarrow> situation" where
  "analyze_entry sit e =
     (case e of (obj_id, ent) \<Rightarrow>
        if urgent_test ent then
          sit\<lparr>urgent_alerts := urgent_alerts sit @ [alert_of ent]\<rparr>
        else if moving_test ent then
          sit\<lparr>moving_objects := moving_objects sit @ [moving_of ent]\<rparr>
        else if obstacle_test ent then
          sit\<lparr>obstacles := obstacles sit @ [obstacle_of ent]\<rparr>
        else sit)"

text \<open>The corridor test of the second loop.\<close>

definition in_corridor :: "info \<Rightarrow> bool" where
  "in_corridor ent =
     (case info_position ent of (x, y, z) \<Rightarrow>
        \<bar>x\<bar> < 7 / 10 \<and> z > 0 \<and> norm3 (info_position ent) < 3)"

text \<open>The second loop, with its \<open>break\<close>: the value of \<open>ahead_clear\<close> at the end.\<close>

fun ahead_clear :: "(nat, info) dict \<Rightarrow> bool" where
  "ahead_clear [] = True"
| "ahead_clear ((obj_id, ent) # rest) = (if in_corridor ent then False else ahead_clear rest)"

definition analyze_situation :: "(nat, info) dict \<Rightarrow> (nat \<times> info) list \<Rightarrow> situation" where
  "analyze_situation mental_map prioritized_objects =
     (let sit0 = \<lparr>urgent_alerts = [], path_status = ''clear'', obstacles = [],
                  moving_objects = []\<rparr>;
          sit1 = foldl analyze_entry sit0 mental_map
      in sit1\<lparr>path_status := (if ahead_clear mental_map then ''clear'' else ''blocked'')\<rparr>)"

section \<open>Narration\<close>

text \<open>\<open>sep.join(parts)\<close>.\<close>

fun join :: "string \<Rightarrow> string list \<Rightarrow> string" where
  "join sep [] = []"
| "join sep [p] = p"
| "join sep (p # q # ps) = p @ sep @ join sep (q # ps)"

definition alert_clause :: "alert \<Rightarrow> string" where
  "alert_clause a =
     (if alert_urgency a = ''very close''
      then alert_object a @ '' '' @ alert_urgency a @ '' on your '' @ alert_direction a
      else alert_object a @ '' '' @ alert_urgency a @ '' from your '' @ alert_direction a)"

definition moving_clause :: "moving_object \<Rightarrow> string" where
  "moving_clause m = mov_object m @ '' moving on your '' @ mov_direction m"

definition obstacle_clause :: "obstacle \<Rightarrow> string" where
  "obstacle_clause ob = obs_object ob @ '' in path ahead''"

definition path_clause :: "situation \<Rightarrow> string" where
  "path_clause sit =
     (if path_status sit = ''clear'' then ''the way ahead is clear'' else ''obstacle in path'')"

text \<open>The list \<open>narration_parts\<close> as it stands before the \<open>return\<close>s.\<close>

definition narration_parts :: "situation \<Rightarrow> string list" where
  "narration_parts sit =
     (if urgent_alerts sit \<noteq> [] then map alert_clause (take 2 (urgent_alerts sit))
      else if moving_objects sit \<noteq> [] then map moving_clause (take 2 (moving_objects sit))
      else if obstacles sit \<noteq> [] then map obstacle_clause (take 1 (obstacles sit))
      else []) @ [path_clause sit]"

definition generate_contextual_narration :: "situation \<Rightarrow> (nat \<times> info) list \<Rightarrow> string" where
  "generate_contextual_narration sit prioritized_objects =
     (if narration_parts sit = [] \<or> length (narration_parts sit) = 1
      then ''Path is clear, no immediate hazards''
      else if length (narration_parts sit) = 1 then hd (narration_parts sit)
      else join ''; '' (take 2 (narration_parts sit)))"

section \<open>IntelligentTTSEngine\<close>

text \<open>\<open>queue.Queue(maxsize)\<close> as the producer sees it: the items, oldest first. A
  \<open>maxsize\<close> of zero or less means no bound. \<open>get_nowait\<close> and \<open>put_nowait\<close> raise
  \<open>queue.Empty\<close> and \<open>queue.Full\<close>. The worker thread that takes items out is not part of
  the model: \<open>speak\<close> is one step of the producer, with the queue as it finds it.\<close>

record py_queue =
  maxsize :: int
  items :: "string list"

datatype queue_error = Empty | Full

definition full :: "py_queue \<Rightarrow> bool" where
  "full q = (0 < maxsize q \<and> maxsize q \<le> int (length (items q)))"

definition get_nowait :: "py_queue \<Rightarrow> queue_error + string \<times> py_queue" where
  "get_nowait q = (case items q of [] \<Rightarrow> Inl Empty | x # xs \<Rightarrow> Inr (x, q\<lparr>items := xs\<rparr>))"

definition put_nowait :: "string \<Rightarrow> py_queue \<Rightarrow> queue_error + py_queue" where
  "put_nowait x q =
     (if 0 < maxsize q \<and> maxsize q \<le> int (length (items q)) then Inl Full
      else Inr (q\<lparr>items := items q @ [x]\<rparr>))"

text \<open>The fields that \<open>speak\<close> reads and writes.\<close>

record tts_engine =
  phrase_q :: py_queue
  last_narration :: string
  last_narration_time :: real

definition IntelligentTTSEngine :: tts_engine where
  "IntelligentTTSEngine =
     \<lparr>phrase_q = \<lparr>maxsize = 5, items = []\<rparr>, last_narration = [], last_narration_time = 0\<rparr>"

text \<open>\<open>speak\<close>. The clock is read twice, for the debounce test (\<open>now_check\<close>) and for the
  record of acceptance (\<open>now_accept\<close>); both readings are arguments.\<close>

definition speak :: "tts_engine \<Rightarrow> string \<Rightarrow> bool \<Rightarrow> real \<Rightarrow> real \<Rightarrow> tts_engine" where
  "speak self text force now_check now_accept =
     (if text = [] then self
      else if \<not> force \<and> text = last_narration self \<and>
              now_check - last_narration_time self < 3 then self
      else
        (let self1 = self\<lparr>last_narration := text, last_narration_time := now_accept\<rparr>;
             q1 = (if full (phrase_q self1)
                   then (case get_nowait (phrase_q self1) of
                           Inl err \<Rightarrow> phrase_q self1
                         | Inr (old, q) \<Rightarrow> q)
                   else phrase_q self1)
         in case put_nowait text q1 of
              Inl err \<Rightarrow> self1
            | Inr q2 \<Rightarrow> self1\<lparr>phrase_q := q2\<rparr>))"

text \<open>The queue after an accepted text, with the bound of five of the constructor.\<close>

definition pushed :: "string \<Rightarrow> string list \<Rightarrow> string list" where
  "pushed text q = (if length q = 5 then tl q else q) @ [text]"

section \<open>Properties of the overlap metric\<close>





















section \<open>Properties of the speech scheduler\<close>

text \<open>
  Claim C10. \<open>speak\<close> with the empty text returns at once, whatever \<open>force\<close> is: the
  queue, the last accepted text and its time are those of before.
\<close>

theorem speak_empty_noop: "speak self [] force now_check now_accept = self"
  by (simp add: speak_def)

lemma speak_debounced:
  "\<not> force \<Longrightarrow> phrase = last_narration self \<Longrightarrow> now_check - last_narration_time self < 3 \<Longrightarrow>
   speak self phrase force now_check now_accept = self"
  by (simp add: speak_def)

lemma speak_accepted:
  assumes "maxsize (phrase_q self) = 5" and "length (items (phrase_q self)) \<le> 5"
    and "phrase \<noteq> []"
    and "\<not> (\<not> force \<and> phrase = last_narration self \<and> now_check - last_narration_time self < 3)"
  shows "speak self phrase force now_check now_accept =
     self\<lparr>phrase_q := (phrase_q self)\<lparr>items := pushed phrase (items (phrase_q self))\<rparr>,
          last_narration := phrase, last_narration_time := now_accept\<rparr>"
proof (cases "length (items (phrase_q self)) = 5")
  case True
  then obtain x xs where xs: "items (phrase_q self) = x # xs"
    by (cases "items (phrase_q self)") auto
  with True have "length xs = 4" by simp
  with assms xs show ?thesis
    by (auto simp: speak_def full_def get_nowait_def put_nowait_def pushed_def Let_def)
next
  case False
  with assms have "length (items (phrase_q self)) < 5" by simp
  with assms show ?thesis
    by (auto simp: speak_def full_def get_nowait_def put_nowait_def pushed_def Let_def)
qed

lemma length_pushed: "length q \<le> 5 \<Longrightarrow> length (pushed phrase q) \<le> 5"
  by (cases q) (auto simp: pushed_def)

lemma pushed_full: "length q = 5 \<Longrightarrow> pushed phrase q = tl q @ [phrase] \<and> length (pushed phrase q) = 5"
  by (cases q) (auto simp: pushed_def)

lemma speak_bound:
  assumes "maxsize (phrase_q self) = 5" and "length (items (phrase_q self)) \<le> 5"
  shows "maxsize (phrase_q (speak self phrase force now_check now_accept)) = 5 \<and>
         length (items (phrase_q (speak self phrase force now_check now_accept))) \<le> 5"
proof (cases "phrase \<noteq> [] \<and>
    \<not> (\<not> force \<and> phrase = last_narration self \<and> now_check - last_narration_time self < 3)")
  case True
  then show ?thesis using assms by (simp add: speak_accepted length_pushed)
next
  case False
  then have "speak self phrase force now_check now_accept = self"
    by (auto simp: speak_def)
  then show ?thesis using assms by simp
qed

lemma speak_twice:
  assumes "maxsize (phrase_q self) = 5" and "length (items (phrase_q self)) \<le> 5"
    and "phrase \<noteq> []"
    and "\<not> (\<not> force \<and> phrase = last_narration self \<and> now_check - last_narration_time self < 3)"
    and "now_check2 - now_accept < 3"
  shows "speak (speak self phrase force now_check now_accept) phrase False now_check2 now_accept2 =
         speak self phrase force now_check now_accept"
  using assms(5) by (simp add: speak_accepted [OF assms(1-4)] speak_debounced)

text \<open>
  Claim C8, for a text that is not empty, on an engine whose queue has the bound 5 of
  the constructor and holds at most 5 items. If the text is the last accepted one,
  \<open>force\<close> is false and less than 3 seconds have passed since it was accepted, \<open>speak\<close>
  changes nothing. Otherwise the text and the time are recorded and the text is put at
  the end of the queue, after the oldest item has been taken out when the queue held 5:
  the queue never holds more than 5 items, a full queue stays at 5 with its oldest item
  gone and the new one last, and a second \<open>speak\<close> of the same text less than 3 seconds
  after the acceptance changes nothing.
\<close>

theorem speak_spec:
  assumes "maxsize (phrase_q self) = 5" and "length (items (phrase_q self)) \<le> 5"
  shows
    "(\<not> force \<and> phrase = last_narration self \<and> now_check - last_narration_time self < 3 \<longrightarrow>
        speak self phrase force now_check now_accept = self) \<and>
     (phrase \<noteq> [] \<and>
      \<not> (\<not> force \<and> phrase = last_narration self \<and> now_check - last_narration_time self < 3) \<longrightarrow>
        speak self phrase force now_check now_accept =
          self\<lparr>phrase_q := (phrase_q self)\<lparr>items := pushed phrase (items (phrase_q self))\<rparr>,
               last_narration := phrase, last_narration_time := now_accept\<rparr> \<and>
        (now_check2 - now_accept < 3 \<longrightarrow>
           speak (speak self phrase force now_check now_accept) phrase False now_check2 now_accept2 =
           speak self phrase force now_check now_accept)) \<and>
     maxsize (phrase_q (speak self phrase force now_check now_accept)) = 5 \<and>
     length (items (phrase_q (speak self phrase force now_check now_accept))) \<le> 5 \<and>
     (length (items (phrase_q self)) = 5 \<longrightarrow>
        pushed phrase (items (phrase_q self)) = tl (items (phrase_q self)) @ [phrase] \<and>
        length (pushed phrase (items (phrase_q self))) = 5) \<and>
     (length (items (phrase_q self)) < 5 \<longrightarrow>
        pushed phrase (items (phrase_q self)) = items (phrase_q self) @ [phrase])"
proof -
  note acc = speak_accepted [OF assms] and twice = speak_twice [OF assms]
    and bnd = speak_bound [OF assms]
  show ?thesis
    by (intro conjI impI) (simp_all add: speak_debounced acc twice bnd pushed_full pushed_def)
qed

theorem speak_spec_witness:
  "maxsize (phrase_q IntelligentTTSEngine) = 5 \<and>
   length (items (phrase_q IntelligentTTSEngine)) \<le> 5 \<and>
   items (phrase_q (speak IntelligentTTSEngine ''X'' False 10 10)) = [''X''] \<and>
   items (phrase_q (speak (speak IntelligentTTSEngine ''X'' False 10 10) ''X'' False 12 12)) = [''X''] \<and>
   items (phrase_q (speak
     \<lparr>phrase_q = \<lparr>maxsize = 5, items = [''a'', ''b'', ''c'', ''d'', ''e'']\<rparr>,
      last_narration = ''e'', last_narration_time = 0\<rparr> ''f'' False 1 1)) =
     [''b'', ''c'', ''d'', ''e'', ''f'']"
  using speak_spec [of IntelligentTTSEngine False "''X''" 10 10 12 12]
    speak_spec [of "\<lparr>phrase_q = \<lparr>maxsize = 5, items = [''a'', ''b'', ''c'', ''d'', ''e'']\<rparr>,
      last_narration = ''e'', last_narration_time = 0\<rparr>" False "''f''" 1 1 2 2]
  by (simp add: IntelligentTTSEngine_def pushed_def speak_def full_def get_nowait_def
      put_nowait_def)

text \<open>
  Claim C8 as it is written lets every text through that is not debounced. The empty
  text with \<open>force\<close> set is not debounced, yet \<open>speak\<close> neither records nor queues it.
\<close>

theorem speak_empty_forced:
  "speak IntelligentTTSEngine [] True 10 10 = IntelligentTTSEngine \<and>
   items (phrase_q IntelligentTTSEngine) = [] \<and>
   pushed [] (items (phrase_q IntelligentTTSEngine)) = [[]]"
  by (simp add: speak_def IntelligentTTSEngine_def pushed_def)

section \<open>Properties of the narration\<close>

lemma narration_parts_length: "1 \<le> length (narration_parts sit) \<and> length (narration_parts sit) \<le> 3"
  by (auto simp: narration_parts_def)

text \<open>
  Claim C7. The clauses are those of at most two urgent alerts, else of at most two
  moving objects, else of at most one obstacle, followed by the one clause of the path
  status. With a single clause the result is the fixed phrase; otherwise it is the first
  two clauses joined by \<open>"; "\<close>. Case by case: two alerts give both alert clauses (the
  path clause is dropped), one alert gives its clause and the path clause, and likewise
  for moving objects and for the first obstacle; with none of them the result is the
  fixed phrase, whatever the path status. The clause of an alert is
  \<open>"<class> very close on your <direction>"\<close> when its urgency is \<open>very close\<close> and
  \<open>"<class> <urgency> from your <direction>"\<close> otherwise; that of a moving object is
  \<open>"<class> moving on your <direction>"\<close>; that of an obstacle is
  \<open>"<class> in path ahead"\<close>; that of the path status is \<open>"the way ahead is clear"\<close>
  when the status is \<open>clear\<close> and \<open>"obstacle in path"\<close> otherwise.
\<close>

theorem narration_spec:
  "generate_contextual_narration sit pr =
     (if length (narration_parts sit) \<le> 1 then ''Path is clear, no immediate hazards''
      else join ''; '' (take 2 (narration_parts sit))) \<and>
   generate_contextual_narration sit pr =
     (case urgent_alerts sit of
        a # b # rest \<Rightarrow> alert_clause a @ ''; '' @ alert_clause b
      | [a] \<Rightarrow> alert_clause a @ ''; '' @ path_clause sit
      | [] \<Rightarrow>
         (case moving_objects sit of
            m # n # rest \<Rightarrow> moving_clause m @ ''; '' @ moving_clause n
          | [m] \<Rightarrow> moving_clause m @ ''; '' @ path_clause sit
          | [] \<Rightarrow>
             (case obstacles sit of
                ob # rest \<Rightarrow> obstacle_clause ob @ ''; '' @ path_clause sit
              | [] \<Rightarrow> ''Path is clear, no immediate hazards''))) \<and>
   alert_clause al =
     (if alert_urgency al = ''very close''
      then alert_object al @ '' very close on your '' @ alert_direction al
      else alert_object al @ '' '' @ alert_urgency al @ '' from your '' @ alert_direction al) \<and>
   moving_clause mv = mov_object mv @ '' moving on your '' @ mov_direction mv \<and>
   obstacle_clause obs = obs_object obs @ '' in path ahead'' \<and>
   path_clause sit =
     (if path_status sit = ''clear'' then ''the way ahead is clear'' else ''obstacle in path'')"
  by (auto simp: generate_contextual_narration_def narration_parts_def alert_clause_def
      moving_clause_def obstacle_clause_def path_clause_def split: list.splits)

theorem narration_spec_witness:
  "generate_contextual_narration
     \<lparr>urgent_alerts = [\<lparr>alert_object = ''car'', alert_direction = ''left'',
                         alert_urgency = ''very close'', alert_distance = 1\<rparr>],
      path_status = ''blocked'', obstacles = [], moving_objects = []\<rparr> [] =
     ''car very close on your left; obstacle in path'' \<and>
   generate_contextual_narration
     \<lparr>urgent_alerts = [], path_status = ''clear'', obstacles = [], moving_objects = []\<rparr> [] =
     ''Path is clear, no immediate hazards'' \<and>
   generate_contextual_narration
     \<lparr>urgent_alerts = [\<lparr>alert_object = ''bus'', alert_direction = ''right'',
                         alert_urgency = ''approaching'', alert_distance = 2\<rparr>],
      path_status = ''clear'', obstacles = [], moving_objects = []\<rparr> [] =
     ''bus approaching from your right; the way ahead is clear'' \<and>
   generate_contextual_narration
     \<lparr>urgent_alerts = [], path_status = ''clear'', obstacles = [],
      moving_objects = [\<lparr>mov_object = ''dog'', mov_direction = ''left'',
                          mov_distance = 2\<rparr>]\<rparr> [] =
     ''dog moving on your left; the way ahead is clear'' \<and>
   generate_contextual_narration
     \<lparr>urgent_alerts = [], path_status = ''blocked'',
      obstacles = [\<lparr>obs_object = ''chair'', obs_distance = 1\<rparr>],
      moving_objects = []\<rparr> [] =
     ''chair in path ahead; obstacle in path''"
  using narration_spec [of "\<lparr>urgent_alerts = [\<lparr>alert_object = ''car'', alert_direction = ''left'',
                         alert_urgency = ''very close'', alert_distance = 1\<rparr>],
      path_status = ''blocked'', obstacles = [], moving_objects = []\<rparr>" "[]"]
    narration_spec [of "\<lparr>urgent_alerts = [], path_status = ''clear'', obstacles = [],
      moving_objects = []\<rparr>" "[]"]
  by (simp add: alert_clause_def moving_clause_def obstacle_clause_def path_clause_def
      narration_parts_def generate_contextual_narration_def)

section \<open>Properties of the situation analysis\<close>

lemma ahead_clear_iff: "ahead_clear m = (\<not> (\<exists>oid ent. (oid, ent) \<in> set m \<and> in_corridor ent))"
  by (induction m rule: ahead_clear.induct) auto

lemma path_status_analyze:
  "path_status (analyze_situation m pr) = (if ahead_clear m then ''clear'' else ''blocked'')"
  by (simp add: analyze_situation_def Let_def)

lemma in_corridor_iff:
  "in_corridor ent =
     (\<exists>x y z. info_position ent = (x, y, z) \<and> \<bar>x\<bar> < 7 / 10 \<and> z > 0 \<and> norm3 (x, y, z) < 3)"
  by (cases "info_position ent") (auto simp: in_corridor_def simp del: norm3.simps)

text \<open>
  Claim C6. \<open>analyze_situation\<close> sets the path status to \<open>blocked\<close> exactly when some
  entry of the world model has \<open>|x| < 0.7\<close>, \<open>z > 0\<close> and distance below 3, and to
  \<open>clear\<close> otherwise. A single entry at \<open>x = 0\<close>, \<open>z = 1\<close> with distance below 3 gives
  \<open>blocked\<close>; a single entry at \<open>x = 2\<close>, \<open>z = 1\<close> gives \<open>clear\<close>.
\<close>

theorem path_status_spec:
  "(path_status (analyze_situation m pr) = ''blocked'') =
     (\<exists>oid ent x y z. (oid, ent) \<in> set m \<and> info_position ent = (x, y, z) \<and>
        \<bar>x\<bar> < 7 / 10 \<and> z > 0 \<and> norm3 (x, y, z) < 3) \<and>
   (path_status (analyze_situation m pr) = ''clear'') =
     (\<not> (\<exists>oid ent x y z. (oid, ent) \<in> set m \<and> info_position ent = (x, y, z) \<and>
        \<bar>x\<bar> < 7 / 10 \<and> z > 0 \<and> norm3 (x, y, z) < 3)) \<and>
   (info_position ent0 = (0, y0, 1) \<and> norm3 (0, y0, 1) < 3 \<longrightarrow>
      path_status (analyze_situation [(oid0, ent0)] pr) = ''blocked'') \<and>
   (info_position ent0 = (2, y0, 1) \<longrightarrow>
      path_status (analyze_situation [(oid0, ent0)] pr) = ''clear'')"
proof -
  have blocked: "(path_status (analyze_situation m pr) = ''blocked'') =
      (\<exists>oid ent. (oid, ent) \<in> set m \<and> in_corridor ent)" for m
    by (simp add: path_status_analyze ahead_clear_iff)
  have clear: "(path_status (analyze_situation m pr) = ''clear'') =
      (\<not> (\<exists>oid ent. (oid, ent) \<in> set m \<and> in_corridor ent))" for m
    by (simp add: path_status_analyze ahead_clear_iff)
  have ex: "(\<exists>oid ent. (oid, ent) \<in> set m \<and> in_corridor ent) =
      (\<exists>oid ent x y z. (oid, ent) \<in> set m \<and> info_position ent = (x, y, z) \<and>
        \<bar>x\<bar> < 7 / 10 \<and> z > 0 \<and> norm3 (x, y, z) < 3)" for m
    by (simp only: in_corridor_iff) blast
  have one: "info_position ent0 = (0, y0, 1) \<and> norm3 (0, y0, 1) < 3 \<longrightarrow>
      path_status (analyze_situation [(oid0, ent0)] pr) = ''blocked''"
    by (simp add: path_status_analyze in_corridor_def)
  have two: "info_position ent0 = (2, y0, 1) \<longrightarrow>
      path_status (analyze_situation [(oid0, ent0)] pr) = ''clear''"
    by (simp add: path_status_analyze in_corridor_def)
  show ?thesis
    using blocked [of m] clear [of m] ex [of m] one two by simp
qed

theorem path_status_spec_witness:
  "norm3 (0, 0, 1) < 3 \<and>
   path_status (analyze_situation
     [(0, \<lparr>info_class = ''chair'', info_position = (0, 0, 1), info_velocity = (0, 0, 0),
            info_last_seen = 0\<rparr>)] []) = ''blocked'' \<and>
   path_status (analyze_situation
     [(0, \<lparr>info_class = ''chair'', info_position = (2, 0, 1), info_velocity = (0, 0, 0),
            info_last_seen = 0\<rparr>)] []) = ''clear''"
  using path_status_spec [of "[]" "[]"
      "\<lparr>info_class = ''chair'', info_position = (0, 0, 1), info_velocity = (0, 0, 0),
        info_last_seen = 0\<rparr>" 0 0]
    path_status_spec [of "[]" "[]"
      "\<lparr>info_class = ''chair'', info_position = (2, 0, 1), info_velocity = (0, 0, 0),
        info_last_seen = 0\<rparr>" 0 0]
  by simp

lemma foldl_analyze_entry:
  "urgent_alerts (foldl analyze_entry sit m) =
     urgent_alerts sit @ map alert_of (filter urgent_test (map snd m)) \<and>
   moving_objects (foldl analyze_entry sit m) =
     moving_objects sit @
       map moving_of (filter (\<lambda>e. \<not> urgent_test e \<and> moving_test e) (map snd m)) \<and>
   obstacles (foldl analyze_entry sit m) =
     obstacles sit @
       map obstacle_of
         (filter (\<lambda>e. \<not> urgent_test e \<and> \<not> moving_test e \<and> obstacle_test e) (map snd m))"
  by (induction m arbitrary: sit) (auto simp: analyze_entry_def)

lemma three_filters:
  "length (filter P xs) + length (filter (\<lambda>e. \<not> P e \<and> Q e) xs) +
   length (filter (\<lambda>e. \<not> P e \<and> \<not> Q e \<and> R e) xs) \<le> length xs"
  by (induction xs) auto

text \<open>
  Claim C9. The three buckets of the report are the entries that pass the first test,
  those that fail the first and pass the second, and those that fail the first two and
  pass the third, each in the order of the world model: an entry is in at most one
  bucket, and the three together hold at most as many items as there are entries. An
  approaching entry nearer than 3 goes to the urgent alerts and to no other bucket; a
  moving entry that is not approaching and is nearer than 3 goes to the moving objects
  and never to the obstacles.
\<close>

theorem buckets_exclusive:
  "urgent_alerts (analyze_situation m pr) = map alert_of (filter urgent_test (map snd m)) \<and>
   moving_objects (analyze_situation m pr) =
     map moving_of (filter (\<lambda>e. \<not> urgent_test e \<and> moving_test e) (map snd m)) \<and>
   obstacles (analyze_situation m pr) =
     map obstacle_of
       (filter (\<lambda>e. \<not> urgent_test e \<and> \<not> moving_test e \<and> obstacle_test e) (map snd m)) \<and>
   length (urgent_alerts (analyze_situation m pr)) +
     length (moving_objects (analyze_situation m pr)) +
     length (obstacles (analyze_situation m pr)) \<le> length m \<and>
   (is_approaching ent \<and> norm3 (info_position ent) < 3 \<longrightarrow>
      urgent_alerts (analyze_entry sit (oid, ent)) = urgent_alerts sit @ [alert_of ent] \<and>
      moving_objects (analyze_entry sit (oid, ent)) = moving_objects sit \<and>
      obstacles (analyze_entry sit (oid, ent)) = obstacles sit) \<and>
   (is_moving ent \<and> \<not> is_approaching ent \<and> norm3 (info_position ent) < 3 \<longrightarrow>
      urgent_alerts (analyze_entry sit (oid, ent)) = urgent_alerts sit \<and>
      moving_objects (analyze_entry sit (oid, ent)) = moving_objects sit @ [moving_of ent] \<and>
      obstacles (analyze_entry sit (oid, ent)) = obstacles sit)"
proof -
  have a: "urgent_alerts (analyze_situation m pr) = map alert_of (filter urgent_test (map snd m))"
    by (simp add: analyze_situation_def Let_def foldl_analyze_entry)
  have b: "moving_objects (analyze_situation m pr) =
     map moving_of (filter (\<lambda>e. \<not> urgent_test e \<and> moving_test e) (map snd m))"
    by (simp add: analyze_situation_def Let_def foldl_analyze_entry)
  have c: "obstacles (analyze_situation m pr) =
     map obstacle_of
       (filter (\<lambda>e. \<not> urgent_test e \<and> \<not> moving_test e \<and> obstacle_test e) (map snd m))"
    by (simp add: analyze_situation_def Let_def foldl_analyze_entry)
  have d: "length (urgent_alerts (analyze_situation m pr)) +
     length (moving_objects (analyze_situation m pr)) +
     length (obstacles (analyze_situation m pr)) \<le> length m"
    using three_filters [of urgent_test "map snd m" moving_test obstacle_test]
    by (simp only: a b c length_map)
  have e: "is_approaching ent \<and> norm3 (info_position ent) < 3 \<longrightarrow>
      urgent_alerts (analyze_entry sit (oid, ent)) = urgent_alerts sit @ [alert_of ent] \<and>
      moving_objects (analyze_entry sit (oid, ent)) = moving_objects sit \<and>
      obstacles (analyze_entry sit (oid, ent)) = obstacles sit"
    by (simp add: analyze_entry_def urgent_test_def)
  have f: "is_moving ent \<and> \<not> is_approaching ent \<and> norm3 (info_position ent) < 3 \<longrightarrow>
      urgent_alerts (analyze_entry sit (oid, ent)) = urgent_alerts sit \<and>
      moving_objects (analyze_entry sit (oid, ent)) = moving_objects sit @ [moving_of ent] \<and>
      obstacles (analyze_entry sit (oid, ent)) = obstacles sit"
    by (simp add: analyze_entry_def urgent_test_def moving_test_def)
  show ?thesis using a b c d e f by (simp only: simp_thms)
qed

theorem buckets_exclusive_witness:
  "is_approaching \<lparr>info_class = ''car'', info_position = (0, 0, 1),
      info_velocity = (0, 0, - 1), info_last_seen = 0\<rparr> \<and>
   moving_objects (analyze_entry
     \<lparr>urgent_alerts = [], path_status = ''clear'', obstacles = [], moving_objects = []\<rparr>
     (0, \<lparr>info_class = ''car'', info_position = (0, 0, 1),
      info_velocity = (0, 0, - 1), info_last_seen = 0\<rparr>)) = [] \<and>
   obstacles (analyze_entry
     \<lparr>urgent_alerts = [], path_status = ''clear'', obstacles = [], moving_objects = []\<rparr>
     (0, \<lparr>info_class = ''car'', info_position = (0, 0, 1),
      info_velocity = (0, 0, - 1), info_last_seen = 0\<rparr>)) = [] \<and>
   is_moving \<lparr>info_class = ''dog'', info_position = (0, 0, 1),
      info_velocity = (1, 0, 0), info_last_seen = 0\<rparr> \<and>
   \<not> is_approaching \<lparr>info_class = ''dog'', info_position = (0, 0, 1),
      info_velocity = (1, 0, 0), info_last_seen = 0\<rparr> \<and>
   obstacles (analyze_entry
     \<lparr>urgent_alerts = [], path_status = ''clear'', obstacles = [], moving_objects = []\<rparr>
     (1, \<lparr>info_class = ''dog'', info_position = (0, 0, 1),
      info_velocity = (1, 0, 0), info_last_seen = 0\<rparr>)) = [] \<and>
   length (urgent_alerts (analyze_situation
     [(0, \<lparr>info_class = ''car'', info_position = (0, 0, 1),
           info_velocity = (0, 0, - 1), info_last_seen = 0\<rparr>),
      (1, \<lparr>info_class = ''dog'', info_position = (0, 0, 1),
           info_velocity = (1, 0, 0), info_last_seen = 0\<rparr>)] [])) = 1"
  using buckets_exclusive [of
      "[(0, \<lparr>info_class = ''car'', info_position = (0, 0, 1),
           info_velocity = (0, 0, - 1), info_last_seen = 0\<rparr>),
        (1, \<lparr>info_class = ''dog'', info_position = (0, 0, 1),
           info_velocity = (1, 0, 0), info_last_seen = 0\<rparr>)]" "[]"
      "\<lparr>info_class = ''car'', info_position = (0, 0, 1),
        info_velocity = (0, 0, - 1), info_last_seen = 0\<rparr>"
      "\<lparr>urgent_alerts = [], path_status = ''clear'', obstacles = [], moving_objects = []\<rparr>" 0]
    buckets_exclusive [of "[]" "[]"
      "\<lparr>info_class = ''dog'', info_position = (0, 0, 1),
        info_velocity = (1, 0, 0), info_last_seen = 0\<rparr>"
      "\<lparr>urgent_alerts = [], path_status = ''clear'', obstacles = [], moving_objects = []\<rparr>" 1]
  by (simp add: is_approaching_def is_moving_def urgent_test_def)

section \<open>Properties of the world model\<close>

lemma map_of_upsert_all:
  "map_of (upsert_all now tr m) k =
     (case map_of (rev tr) k of None \<Rightarrow> map_of m k | Some det \<Rightarrow> Some (info_of det now))"
proof (induction tr arbitrary: m)
  case Nil
  show ?case by simp
next
  case (Cons p tr)
  obtain i d where p: "p = (i, d)" by (cases p)
  show ?case
    by (simp add: p Cons.IH update_conv' map_add_def split: option.splits)
qed

lemma dict_wf_upsert_all: "dict_wf m \<Longrightarrow> dict_wf (upsert_all now tr m)"
proof (induction tr arbitrary: m)
  case Nil
  then show ?case by simp
next
  case (Cons p tr)
  obtain i d where p: "p = (i, d)" by (cases p)
  from Cons.prems have "dict_wf (AList.update i (info_of d now) m)"
    by (simp add: dict_wf_def keys_def distinct_update)
  then show ?case by (simp add: p Cons.IH)
qed

lemma dict_wf_filter: "dict_wf m \<Longrightarrow> dict_wf (filter P m)"
  by (simp add: dict_wf_def keys_def distinct_map_filter)

lemma map_of_filter_values:
  "dict_wf m \<Longrightarrow>
   map_of (filter (\<lambda>(k, v). P v) m) k =
     (case map_of m k of None \<Rightarrow> None | Some v \<Rightarrow> if P v then Some v else None)"
proof (induction m)
  case Nil
  show ?case by simp
next
  case (Cons p m)
  obtain i v where p: "p = (i, v)" by (cases p)
  from Cons.prems have wf: "dict_wf m" and fresh: "i \<notin> fst ` set m"
    by (simp_all add: dict_wf_def keys_def p)
  from fresh have none: "map_of (filter (\<lambda>(k, v). P v) m) i = None"
    by (auto simp: map_of_eq_None_iff)
  show ?case
    using Cons.IH [OF wf] none by (simp add: p)
qed

lemma map_of_rev_None: "(map_of (rev tr) k = None) = (k \<notin> fst ` set tr)"
  by (simp add: map_of_eq_None_iff)

text \<open>
  Claim C4. After \<open>update\<close> at the clock reading \<open>now\<close>, every entry of the map
  satisfies \<open>now - last_seen \<le> keep_seconds\<close>. An id that was reported holds an entry made of
  the class, the position and the velocity of its last report and of the time \<open>now\<close>
  (and is pruned at once only if \<open>keep_seconds\<close> is negative). An id that was not reported keeps its entry if
  \<open>now - last_seen \<le> keep_seconds\<close> and is absent otherwise.
\<close>

theorem update_spec:
  assumes "dict_wf (mmap self)"
  shows
    "dict_wf (mmap (update self tr now)) \<and>
     keep_seconds (update self tr now) = keep_seconds self \<and>
     (\<forall>oid ent. map_of (mmap (update self tr now)) oid = Some ent \<longrightarrow>
        now - info_last_seen ent \<le> keep_seconds self) \<and>
     (\<forall>oid det. map_of (rev tr) oid = Some det \<longrightarrow>
        map_of (mmap (update self tr now)) oid =
          (if 0 \<le> keep_seconds self
           then Some \<lparr>info_class = det_class det, info_position = det_position det,
                     info_velocity = det_velocity det, info_last_seen = now\<rparr>
           else None)) \<and>
     (\<forall>oid. oid \<notin> fst ` set tr \<longrightarrow>
        map_of (mmap (update self tr now)) oid =
          (case map_of (mmap self) oid of
             None \<Rightarrow> None
           | Some ent \<Rightarrow>
               if now - info_last_seen ent \<le> keep_seconds self then Some ent else None))"
proof -
  let ?P = "\<lambda>ent. now - info_last_seen ent \<le> keep_seconds self"
  have wf: "dict_wf (upsert_all now tr (mmap self))"
    using assms by (rule dict_wf_upsert_all)
  have look: "map_of (mmap (update self tr now)) oid =
      (case map_of (upsert_all now tr (mmap self)) oid of
         None \<Rightarrow> None | Some ent \<Rightarrow> if ?P ent then Some ent else None)" for oid
    by (simp add: update_def map_of_filter_values [OF wf, of ?P])
  have c1: "dict_wf (mmap (update self tr now))"
    using wf by (simp add: update_def dict_wf_filter)
  have c2: "keep_seconds (update self tr now) = keep_seconds self"
    by (simp add: update_def)
  have c3: "\<forall>oid ent. map_of (mmap (update self tr now)) oid = Some ent \<longrightarrow>
        now - info_last_seen ent \<le> keep_seconds self"
    by (auto simp: look split: option.splits if_splits)
  have c4: "\<forall>oid det. map_of (rev tr) oid = Some det \<longrightarrow>
        map_of (mmap (update self tr now)) oid =
          (if 0 \<le> keep_seconds self
           then Some \<lparr>info_class = det_class det, info_position = det_position det,
                     info_velocity = det_velocity det, info_last_seen = now\<rparr>
           else None)"
    by (simp add: look map_of_upsert_all info_of_def)
  have c5: "\<forall>oid. oid \<notin> fst ` set tr \<longrightarrow>
        map_of (mmap (update self tr now)) oid =
          (case map_of (mmap self) oid of
             None \<Rightarrow> None
           | Some ent \<Rightarrow>
               if now - info_last_seen ent \<le> keep_seconds self then Some ent else None)"
    by (simp add: look map_of_upsert_all map_of_rev_None [symmetric])
  show ?thesis using c1 c2 c3 c4 c5 by (simp only: simp_thms)
qed

theorem update_spec_witness:
  "dict_wf (mmap \<lparr>mmap = [(0, \<lparr>info_class = ''car'', info_position = (0, 0, 1),
                     info_velocity = (0, 0, 0), info_last_seen = 0\<rparr>)], keep_seconds = 5\<rparr>) \<and>
   mmap (update
     \<lparr>mmap = [(0, \<lparr>info_class = ''car'', info_position = (0, 0, 1),
                     info_velocity = (0, 0, 0), info_last_seen = 0\<rparr>)], keep_seconds = 5\<rparr>
     [(1, \<lparr>det_bbox = (0, 0, 1, 1), det_class = ''dog'', det_position = (0, 0, 2),
           det_velocity = (0, 0, 0)\<rparr>)] 10) =
     [(1, \<lparr>info_class = ''dog'', info_position = (0, 0, 2), info_velocity = (0, 0, 0),
           info_last_seen = 10\<rparr>)]"
  using update_spec [of
     "\<lparr>mmap = [(0, \<lparr>info_class = ''car'', info_position = (0, 0, 1),
                     info_velocity = (0, 0, 0), info_last_seen = 0\<rparr>)], keep_seconds = 5\<rparr>"
     "[(1, \<lparr>det_bbox = (0, 0, 1, 1), det_class = ''dog'', det_position = (0, 0, 2),
           det_velocity = (0, 0, 0)\<rparr>)]" 10]
  by (simp add: update_def dict_wf_def keys_def info_of_def)

section \<open>Properties of the ranking\<close>

lemma slice_to_length: "0 \<le> n \<Longrightarrow> length (slice_to n xs) \<le> nat n"
  by (simp add: slice_to_def)

lemma set_slice_to: "set (slice_to n xs) \<subseteq> set xs"
  by (auto simp: slice_to_def dest: in_set_takeD)

lemma sorted_slice_to: "sorted (map f xs) \<Longrightarrow> sorted (map f (slice_to n xs))"
  by (simp add: slice_to_def take_map [symmetric] sorted_wrt_take)

lemma set_scored: "set (scored m) = (\<lambda>p. (score (snd p), fst p, snd p)) ` set m"
  by (simp add: scored_def case_prod_beta)

lemma scored_fst: "x \<in> set (scored m) \<Longrightarrow> fst x = score (snd (snd x))"
  by (simp only: set_scored, elim imageE) simp

lemma scored_snd: "x \<in> set (scored m) \<Longrightarrow> snd x \<in> set m"
  by (simp only: set_scored, elim imageE) simp

lemma prioritize_scored:
  "prioritize_objects m n = map snd (slice_to n (scored m))"
  by (simp add: prioritize_objects_def scored_def Let_def case_prod_beta)

lemma prioritize_length: "0 \<le> n \<Longrightarrow> length (prioritize_objects m n) \<le> nat n"
  by (simp add: prioritize_scored slice_to_length)

lemma prioritize_subset: "set (prioritize_objects m n) \<subseteq> set m"
  using set_slice_to [of n "scored m"] scored_snd [of _ m]
  by (auto simp: prioritize_scored)

lemma prioritize_sorted:
  "sorted (map (\<lambda>p. - score (snd p)) (prioritize_objects m n))"
proof -
  have "sorted (map (\<lambda>x. - fst x) (scored m))"
    by (simp add: scored_def)
  then have s: "sorted (map (\<lambda>x. - fst x) (slice_to n (scored m)))"
    by (rule sorted_slice_to)
  have "map (\<lambda>p. - score (snd p)) (prioritize_objects m n) =
        map (\<lambda>x. - fst x) (slice_to n (scored m))"
    using set_slice_to [of n "scored m"] scored_fst [of _ m]
    by (auto simp: prioritize_scored)
  with s show ?thesis by simp
qed

lemma fov_angle_iff:
  "(arctan2 \<bar>x\<bar> (max z (1 / 10)) < pi / 4) = (\<bar>x\<bar> < max z (1 / 10))"
proof -
  have pos: "0 < max z (1 / 10)" by simp
  have "(arctan (\<bar>x\<bar> / max z (1 / 10)) < arctan 1) = (\<bar>x\<bar> / max z (1 / 10) < 1)"
    by (rule arctan_less_iff)
  also have "\<dots> = (\<bar>x\<bar> < max z (1 / 10))"
    using pos by (simp only: divide_less_eq_1_pos)
  finally show ?thesis
    using pos by (simp only: arctan2_def if_True arctan_one)
qed

lemma prioritize_length_eq:
  "0 \<le> n \<Longrightarrow> length (prioritize_objects m n) = min (nat n) (length m)"
  by (simp add: prioritize_scored slice_to_def scored_def)

lemma prioritize_descending:
  "sorted_wrt (\<lambda>p q. score (snd q) \<le> score (snd p)) (prioritize_objects m n)"
  using prioritize_sorted [of m n] by (simp add: sorted_map)

lemma score_formula:
  "info_position ent = (x, y, z) \<Longrightarrow> info_velocity ent = (vx, vy, vz) \<Longrightarrow>
   score ent =
     (3 / 10 * type_score (info_class ent) + 3 / 10 * (1 / (norm3 (x, y, z) + 1 / 2)) +
      2 / 10 * (if norm3 (vx, vy, vz) > 1 / 100 then max 0 (- vz) else 0) +
      2 / 10 * (if norm3 (x, y, z) < 2 then 1 else 1 / 2)) *
     (if arctan2 \<bar>x\<bar> (max z (1 / 10)) < pi / 4 then 1 else 1 / 2)"
  by (simp only: score_def Let_def prod.case)

lemma type_score_table:
  "type_score ''person'' = 5 \<and> type_score ''car'' = 6 \<and> type_score ''truck'' = 6 \<and>
   type_score ''bus'' = 6 \<and> type_score ''bicycle'' = 4 \<and> type_score ''motorcycle'' = 5 \<and>
   type_score ''traffic light'' = 3 \<and> type_score ''stop sign'' = 4 \<and>
   type_score ''bench'' = 2 \<and> type_score ''chair'' = 2 \<and> type_score ''dog'' = 4 \<and>
   type_score ''cat'' = 3"
  by (simp add: type_score_def)

lemma type_score_default:
  "c \<notin> set [''person'', ''car'', ''truck'', ''bus'', ''bicycle'', ''motorcycle'',
              ''traffic light'', ''stop sign'', ''bench'', ''chair'', ''dog'', ''cat''] \<Longrightarrow>
   type_score c = 2"
  by (simp add: type_score_def)

text \<open>
  Claim C5, for \<open>top_n\<close> that is not negative. \<open>prioritize_objects\<close> returns at most
  \<open>top_n\<close> entries of the world model, in an order in which the scores do not increase.
  The score of an entry is
  \<open>(0.3 * type_score + 0.3 / (distance + 0.5) + 0.2 * velocity_score + 0.2 * urgency) * fov_factor\<close>
  with the distance the norm of the position, the velocity score \<open>max(0, -vz)\<close> when the
  norm of the velocity exceeds 0.01 and 0 otherwise, the urgency 1 below a distance of 2
  and 0.5 otherwise, the field-of-view factor 1 when \<open>arctan2(|x|, max(z, 0.1))\<close> is
  below \<open>pi / 4\<close> and 0.5 otherwise, and the type score that of the table, 2 for a class outside it.
\<close>

theorem prioritize_spec:
  assumes "0 \<le> top_n"
  shows
    "length (prioritize_objects m top_n) = min (nat top_n) (length m) \<and>
     length (prioritize_objects m top_n) \<le> nat top_n \<and>
     set (prioritize_objects m top_n) \<subseteq> set m \<and>
     sorted_wrt (\<lambda>p q. score (snd q) \<le> score (snd p)) (prioritize_objects m top_n) \<and>
     (info_position ent = (x, y, z) \<and> info_velocity ent = (vx, vy, vz) \<longrightarrow>
        score ent =
          (3 / 10 * type_score (info_class ent) + 3 / 10 * (1 / (norm3 (x, y, z) + 1 / 2)) +
           2 / 10 * (if norm3 (vx, vy, vz) > 1 / 100 then max 0 (- vz) else 0) +
           2 / 10 * (if norm3 (x, y, z) < 2 then 1 else 1 / 2)) *
          (if arctan2 \<bar>x\<bar> (max z (1 / 10)) < pi / 4 then 1 else 1 / 2)) \<and>
     type_score ''person'' = 5 \<and> type_score ''car'' = 6 \<and> type_score ''truck'' = 6 \<and>
     type_score ''bus'' = 6 \<and> type_score ''bicycle'' = 4 \<and> type_score ''motorcycle'' = 5 \<and>
     type_score ''traffic light'' = 3 \<and> type_score ''stop sign'' = 4 \<and>
     type_score ''bench'' = 2 \<and> type_score ''chair'' = 2 \<and> type_score ''dog'' = 4 \<and>
     type_score ''cat'' = 3 \<and>
     (c \<notin> set [''person'', ''car'', ''truck'', ''bus'', ''bicycle'', ''motorcycle'',
                ''traffic light'', ''stop sign'', ''bench'', ''chair'', ''dog'', ''cat''] \<longrightarrow>
        type_score c = 2)"
proof -
  note len = prioritize_length_eq [OF assms, of m] and le = prioritize_length [OF assms, of m]
  have sc: "info_position ent = (x, y, z) \<and> info_velocity ent = (vx, vy, vz) \<longrightarrow>
        score ent =
          (3 / 10 * type_score (info_class ent) + 3 / 10 * (1 / (norm3 (x, y, z) + 1 / 2)) +
           2 / 10 * (if norm3 (vx, vy, vz) > 1 / 100 then max 0 (- vz) else 0) +
           2 / 10 * (if norm3 (x, y, z) < 2 then 1 else 1 / 2)) *
          (if arctan2 \<bar>x\<bar> (max z (1 / 10)) < pi / 4 then 1 else 1 / 2)"
    using score_formula [of ent x y z vx vy vz] by blast
  have df: "c \<notin> set [''person'', ''car'', ''truck'', ''bus'', ''bicycle'', ''motorcycle'',
                ''traffic light'', ''stop sign'', ''bench'', ''chair'', ''dog'', ''cat''] \<longrightarrow>
        type_score c = 2"
    using type_score_default [of c] by blast
  show ?thesis
    using len le prioritize_subset [of m top_n] prioritize_descending [of m top_n] sc df
      type_score_table
    by (simp only: simp_thms)
qed

theorem prioritize_spec_witness:
  "(0::int) \<le> 1 \<and>
   prioritize_objects
     [(0, \<lparr>info_class = ''chair'', info_position = (0, 0, 1), info_velocity = (0, 0, 0),
            info_last_seen = 0\<rparr>),
      (1, \<lparr>info_class = ''person'', info_position = (0, 0, 1), info_velocity = (0, 0, 0),
            info_last_seen = 0\<rparr>)] 1 =
     [(1, \<lparr>info_class = ''person'', info_position = (0, 0, 1), info_velocity = (0, 0, 0),
            info_last_seen = 0\<rparr>)] \<and>
   score \<lparr>info_class = ''person'', info_position = (0, 0, 1), info_velocity = (0, 0, 0),
            info_last_seen = 0\<rparr> = 19 / 10 \<and>
   score \<lparr>info_class = ''chair'', info_position = (0, 0, 1), info_velocity = (0, 0, 0),
            info_last_seen = 0\<rparr> = 1"
  using prioritize_spec [of 1
     "[(0, \<lparr>info_class = ''chair'', info_position = (0, 0, 1), info_velocity = (0, 0, 0),
            info_last_seen = 0\<rparr>),
      (1, \<lparr>info_class = ''person'', info_position = (0, 0, 1), info_velocity = (0, 0, 0),
            info_last_seen = 0\<rparr>)]"]
  by (simp add: prioritize_objects_def score_def slice_to_def type_score_def arctan2_def)

section \<open>Properties of the tracker\<close>

lemma tracker_inv_init: "tracker_inv (tracker_init thr age)"
  by (simp add: tracker_inv_def tracker_init_def keys_def)

lemma keys_update:
  "keys (AList.update k v d) = (if k \<in> set (keys d) then keys d else keys d @ [k])"
  by (simp add: keys_def update_keys)

lemma map_of_restrict_ids:
  "map_of (restrict_ids ids d) k = (if k \<in> set ids then map_of d k else None)"
  by (induction ids) (auto simp: restrict_ids_def List.map_filter_simps split: option.splits)

lemma keys_restrict_ids:
  "keys (restrict_ids ids d) = filter (\<lambda>k. map_of d k \<noteq> None) ids"
  by (induction ids) (auto simp: restrict_ids_def keys_def List.map_filter_simps split: option.splits)

lemma keys_age_unclaimed: "keys (age_unclaimed U d) = keys d"
  by (induction d) (auto simp: age_unclaimed_def keys_def)

lemma map_of_age_unclaimed:
  "map_of (age_unclaimed U d) k =
     (case map_of d k of None \<Rightarrow> None | Some a \<Rightarrow> Some (if k \<notin> U then a + 1 else a))"
  by (induction d) (auto simp: age_unclaimed_def)

lemma map_of_keys_None: "(map_of d k = None) = (k \<notin> set (keys d))"
  by (simp add: keys_def map_of_eq_None_iff)

lemma active_ids_iff:
  assumes "dict_wf d"
  shows "(k \<in> set (map fst (filter (\<lambda>(oid, age). age \<le> (m::int)) d))) =
         (\<exists>a. map_of d k = Some a \<and> a \<le> m)"
  using assms by (induction d) (auto simp: dict_wf_def keys_def rev_image_eqI)

lemma match_loop_mono:
  "match_loop thr U db boxes (m0, b0) = (m, b) \<Longrightarrow> b0 \<le> b"
proof (induction boxes arbitrary: m0 b0)
  case Nil
  then show ?case by simp
next
  case (Cons e boxes)
  obtain m1 b1 where st: "match_step thr U db e (m0, b0) = (m1, b1)"
    by (cases "match_step thr U db e (m0, b0)")
  then have "b0 \<le> b1"
    by (cases e) (auto simp: match_step_def Let_def split: if_splits)
  moreover from Cons.prems st have "b1 \<le> b"
    by (simp add: Cons.IH)
  ultimately show ?case by simp
qed

lemma match_loop_upper:
  "match_loop thr U db boxes (m0, b0) = (m, b) \<Longrightarrow> (k, box) \<in> set boxes \<Longrightarrow>
   k \<notin> U \<Longrightarrow> thr < iou db box \<Longrightarrow> iou db box \<le> b"
proof (induction boxes arbitrary: m0 b0)
  case Nil
  then show ?case by simp
next
  case (Cons e boxes)
  obtain m1 b1 where st: "match_step thr U db e (m0, b0) = (m1, b1)"
    by (cases "match_step thr U db e (m0, b0)")
  from Cons.prems(1) st have rest: "match_loop thr U db boxes (m1, b1) = (m, b)"
    by simp
  show ?case
  proof (cases "e = (k, box)")
    case True
    with st Cons.prems(3,4) have "iou db box \<le> b1"
      by (auto simp: match_step_def Let_def split: if_splits)
    with match_loop_mono [OF rest] show ?thesis by simp
  next
    case False
    with Cons.prems(2) have "(k, box) \<in> set boxes" by simp
    from Cons.IH [OF rest this Cons.prems(3,4)] show ?thesis .
  qed
qed

lemma match_loop_result:
  "match_loop thr U db boxes (m0, b0) = (m, b) \<Longrightarrow>
   (m = m0 \<and> b = b0) \<or>
   (\<exists>k box. (k, box) \<in> set boxes \<and> m = Some k \<and> k \<notin> U \<and> b = iou db box \<and> thr < b \<and> b0 < b)"
proof (induction boxes arbitrary: m0 b0)
  case Nil
  then show ?case by simp
next
  case (Cons e boxes)
  obtain m1 b1 where st: "match_step thr U db e (m0, b0) = (m1, b1)"
    by (cases "match_step thr U db e (m0, b0)")
  from Cons.prems st have rest: "match_loop thr U db boxes (m1, b1) = (m, b)"
    by simp
  obtain k0 box0 where e: "e = (k0, box0)" by (cases e)
  from st e have step: "(m1 = m0 \<and> b1 = b0) \<or>
      (m1 = Some k0 \<and> k0 \<notin> U \<and> b1 = iou db box0 \<and> thr < b1 \<and> b0 < b1)"
    by (auto simp: match_step_def Let_def split: if_splits)
  from Cons.IH [OF rest] have ih: "(m = m1 \<and> b = b1) \<or>
      (\<exists>k box. (k, box) \<in> set boxes \<and> m = Some k \<and> k \<notin> U \<and> b = iou db box \<and> thr < b \<and> b1 < b)" .
  from match_loop_mono [OF rest] step have "b0 \<le> b1" by auto
  with step ih e show ?case by fastforce
qed

lemma match_found:
  assumes "dict_wf boxes"
    and "fst (match_loop thr U db boxes (None, 0)) = Some k"
  shows "\<exists>box. map_of boxes k = Some box \<and> k \<notin> U \<and> thr < iou db box \<and>
           (\<forall>j b. map_of boxes j = Some b \<and> j \<notin> U \<longrightarrow> iou db b \<le> iou db box)"
proof -
  obtain m b where res: "match_loop thr U db boxes (None, 0) = (m, b)"
    by (cases "match_loop thr U db boxes (None, 0)")
  with assms(2) have m: "m = Some k" by simp
  from match_loop_result [OF res] m obtain box where
    box: "(k, box) \<in> set boxes" "k \<notin> U" "b = iou db box" "thr < b"
    by auto
  from assms(1) box(1) have look: "map_of boxes k = Some box"
    by (simp add: dict_wf_def keys_def)
  have "iou db b' \<le> iou db box" if "map_of boxes j = Some b'" "j \<notin> U" for j b'
  proof (cases "thr < iou db b'")
    case True
    from that(1) have "(j, b') \<in> set boxes" by (rule map_of_SomeD)
    from match_loop_upper [OF res this that(2) True] box(3) show ?thesis by simp
  next
    case False
    with box(3,4) show ?thesis by simp
  qed
  with look box show ?thesis by blast
qed

lemma match_none:
  assumes "0 \<le> thr"
    and "fst (match_loop thr U db boxes (None, 0)) = None"
    and "map_of boxes j = Some b'" and "j \<notin> U"
  shows "\<not> thr < iou db b'"
proof
  assume gt: "thr < iou db b'"
  obtain m b where res: "match_loop thr U db boxes (None, 0) = (m, b)"
    by (cases "match_loop thr U db boxes (None, 0)")
  with assms(2) have m: "m = None" by simp
  from match_loop_result [OF res] m have "b = 0" by auto
  moreover from assms(3) have "(j, b') \<in> set boxes" by (rule map_of_SomeD)
  from match_loop_upper [OF res this assms(4) gt] have "iou db b' \<le> b" .
  ultimately show False using gt assms(1) by simp
qed

lemma store_track_lookups:
  "map_of (boxes_2d (store_track i db pos frame s)) = (map_of (boxes_2d s))(i \<mapsto> db) \<and>
   map_of (positions_3d (store_track i db pos frame s)) = (map_of (positions_3d s))(i \<mapsto> pos) \<and>
   map_of (timestamps (store_track i db pos frame s)) = (map_of (timestamps s))(i \<mapsto> frame) \<and>
   map_of (ages (store_track i db pos frame s)) = (map_of (ages s))(i \<mapsto> 0) \<and>
   next_id (store_track i db pos frame s) = next_id s \<and>
   iou_threshold (store_track i db pos frame s) = iou_threshold s \<and>
   max_age (store_track i db pos frame s) = max_age s"
  by (simp add: store_track_def update_conv')

lemma store_track_inv:
  assumes "tracker_inv s" and "i < next_id s"
  shows "tracker_inv (store_track i db pos frame s)"
  using assms
  by (auto simp: tracker_inv_def store_track_def keys_update list_all_iff)

lemma bump_inv: "tracker_inv s \<Longrightarrow> tracker_inv (s\<lparr>next_id := next_id s + 1\<rparr>)"
  by (auto simp: tracker_inv_def list_all_iff)

lemma inv_key_below: "tracker_inv s \<Longrightarrow> map_of (boxes_2d s) k = Some b \<Longrightarrow> k < next_id s"
  by (auto simp: tracker_inv_def list_all_iff keys_def dest!: map_of_SomeD)

lemma inv_lookup_positions:
  "tracker_inv s \<Longrightarrow> (map_of (positions_3d s) k = None) = (map_of (boxes_2d s) k = None)"
  by (simp add: tracker_inv_def map_of_keys_None)

lemma inv_lookup_timestamps:
  "tracker_inv s \<Longrightarrow> (map_of (timestamps s) k = None) = (map_of (boxes_2d s) k = None)"
  by (simp add: tracker_inv_def map_of_keys_None)

lemma inv_lookup_ages:
  "tracker_inv s \<Longrightarrow> (map_of (ages s) k = None) = (map_of (boxes_2d s) k = None)"
  by (simp add: tracker_inv_def map_of_keys_None)

lemma inv_fresh: "tracker_inv s \<Longrightarrow> map_of (boxes_2d s) (next_id s) = None"
  using inv_key_below [of s "next_id s"] by (cases "map_of (boxes_2d s) (next_id s)") auto

lemma assign_one_matched:
  assumes "fst (match_loop (iou_threshold self) U (det_bbox det) (boxes_2d self) (None, 0)) = Some k"
    and "map_of (positions_3d self) k = Some p" and "map_of (timestamps self) k = Some t"
  shows "assign_one frame det self U =
    ((k, \<lparr>det_bbox = det_bbox det, det_class = det_class det, det_position = det_position det,
          det_velocity = vdiv (vsub (det_position det) p) (real_of_int (max 1 (frame - t)))\<rparr>),
     store_track k (det_bbox det) (det_position det) frame self, insert k U)"
proof -
  have "0 < max 1 (frame - t)" by (simp add: max_def)
  with assms show ?thesis
    by (simp add: assign_one_def Let_def max.commute)
qed

lemma assign_one_new:
  assumes "fst (match_loop (iou_threshold self) U (det_bbox det) (boxes_2d self) (None, 0)) = None"
    and "map_of (positions_3d self) (next_id self) = None"
  shows "assign_one frame det self U =
    ((next_id self, \<lparr>det_bbox = det_bbox det, det_class = det_class det,
          det_position = det_position det, det_velocity = zeros3\<rparr>),
     store_track (next_id self) (det_bbox det) (det_position det) frame
       (self\<lparr>next_id := next_id self + 1\<rparr>), insert (next_id self) U)"
  using assms by (simp add: assign_one_def Let_def)

lemma assign_one_cases:
  assumes inv: "tracker_inv self" and used: "\<forall>u\<in>U. u < next_id self"
  shows "\<exists>i v self1.
     assign_one frame det self U =
       ((i, \<lparr>det_bbox = det_bbox det, det_class = det_class det,
             det_position = det_position det, det_velocity = v\<rparr>), self1, insert i U) \<and>
     i \<notin> U \<and> tracker_inv self1 \<and> (\<forall>u\<in>insert i U. u < next_id self1) \<and>
     iou_threshold self1 = iou_threshold self \<and> max_age self1 = max_age self \<and>
     next_id self \<le> next_id self1 \<and>
     map_of (boxes_2d self1) = (map_of (boxes_2d self))(i \<mapsto> det_bbox det) \<and>
     map_of (positions_3d self1) = (map_of (positions_3d self))(i \<mapsto> det_position det) \<and>
     map_of (timestamps self1) = (map_of (timestamps self))(i \<mapsto> frame) \<and>
     map_of (ages self1) = (map_of (ages self))(i \<mapsto> 0) \<and>
     ((fst (match_loop (iou_threshold self) U (det_bbox det) (boxes_2d self) (None, 0)) = Some i \<and>
       (\<exists>box p t.
             map_of (boxes_2d self) i = Some box \<and>
             iou_threshold self < iou (det_bbox det) box \<and>
             (\<forall>k b. map_of (boxes_2d self) k = Some b \<and> k \<notin> U \<longrightarrow>
                iou (det_bbox det) b \<le> iou (det_bbox det) box) \<and>
             map_of (positions_3d self) i = Some p \<and>
             map_of (timestamps self) i = Some t \<and>
             v = vdiv (vsub (det_position det) p) (real_of_int (max 1 (frame - t))) \<and>
             next_id self1 = next_id self)) \<or>
      (fst (match_loop (iou_threshold self) U (det_bbox det) (boxes_2d self) (None, 0)) = None \<and>
       i = next_id self \<and> map_of (boxes_2d self) i = None \<and>
       next_id self1 = next_id self + 1 \<and> v = zeros3))"
proof (cases "fst (match_loop (iou_threshold self) U (det_bbox det) (boxes_2d self) (None, 0))")
  case None
  let ?n = "next_id self"
  let ?s1 = "store_track ?n (det_bbox det) (det_position det) frame (self\<lparr>next_id := ?n + 1\<rparr>)"
  have fresh: "map_of (boxes_2d self) ?n = None" using inv by (rule inv_fresh)
  then have pos: "map_of (positions_3d self) ?n = None"
    using inv by (simp add: inv_lookup_positions)
  have res: "assign_one frame det self U =
    ((?n, \<lparr>det_bbox = det_bbox det, det_class = det_class det,
          det_position = det_position det, det_velocity = zeros3\<rparr>), ?s1, insert ?n U)"
    using None pos by (rule assign_one_new)
  have inv1: "tracker_inv ?s1"
    using bump_inv [OF inv] by (rule store_track_inv) simp
  have notin: "?n \<notin> U" using used by auto
  have used1: "\<forall>u\<in>insert ?n U. u < next_id ?s1"
    using used by (auto simp: store_track_lookups)
  show ?thesis
    apply (rule exI [of _ ?n], rule exI [of _ zeros3], rule exI [of _ ?s1])
    using res inv1 notin used1 None fresh
    by (simp add: store_track_lookups)
next
  case (Some k)
  from inv have wf: "dict_wf (boxes_2d self)" by (simp add: tracker_inv_def dict_wf_def)
  from match_found [OF wf Some] obtain box where
    box: "map_of (boxes_2d self) k = Some box" "k \<notin> U" "iou_threshold self < iou (det_bbox det) box"
      "\<forall>j b. map_of (boxes_2d self) j = Some b \<and> j \<notin> U \<longrightarrow>
         iou (det_bbox det) b \<le> iou (det_bbox det) box"
    by blast
  from box(1) inv obtain p where p: "map_of (positions_3d self) k = Some p"
    using inv_lookup_positions [of self k] by (cases "map_of (positions_3d self) k") auto
  from box(1) inv obtain t where t: "map_of (timestamps self) k = Some t"
    using inv_lookup_timestamps [of self k] by (cases "map_of (timestamps self) k") auto
  let ?v = "vdiv (vsub (det_position det) p) (real_of_int (max 1 (frame - t)))"
  let ?s1 = "store_track k (det_bbox det) (det_position det) frame self"
  have res: "assign_one frame det self U =
    ((k, \<lparr>det_bbox = det_bbox det, det_class = det_class det, det_position = det_position det,
          det_velocity = ?v\<rparr>), ?s1, insert k U)"
    using Some p t by (rule assign_one_matched)
  have below: "k < next_id self" using inv box(1) by (rule inv_key_below)
  have inv1: "tracker_inv ?s1" using inv below by (rule store_track_inv)
  have used1: "\<forall>u\<in>insert k U. u < next_id ?s1"
    using used below by (auto simp: store_track_lookups)
  show ?thesis
    apply (rule exI [of _ k], rule exI [of _ ?v], rule exI [of _ ?s1])
    using res inv1 used1 Some box p t
    by (simp add: store_track_lookups)
qed

lemma loop_post_origin:
  "loop_post frame dets self U out s' \<Longrightarrow> j \<in> fst ` set out \<Longrightarrow>
   map_of (boxes_2d self) j \<noteq> None \<or> next_id self \<le> j"
  unfolding loop_post_def by blast

lemma assign_loop_spec:
  assumes "tracker_inv self" and "\<forall>u\<in>U. u < next_id self"
  shows "\<exists>out s'. assign_loop frame dets self U = (out, s', U \<union> fst ` set out) \<and>
           loop_post frame dets self U out s'"
  using assms
proof (induction dets arbitrary: self U)
  case Nil
  then show ?case by (simp add: loop_post_def)
next
  case (Cons det dets)
  from assign_one_cases [OF Cons.prems, of frame det]
  obtain i v self1 where big:
    "assign_one frame det self U =
       ((i, \<lparr>det_bbox = det_bbox det, det_class = det_class det,
             det_position = det_position det, det_velocity = v\<rparr>), self1, insert i U) \<and>
     i \<notin> U \<and> tracker_inv self1 \<and> (\<forall>u\<in>insert i U. u < next_id self1) \<and>
     iou_threshold self1 = iou_threshold self \<and> max_age self1 = max_age self \<and>
     next_id self \<le> next_id self1 \<and>
     map_of (boxes_2d self1) = (map_of (boxes_2d self))(i \<mapsto> det_bbox det) \<and>
     map_of (positions_3d self1) = (map_of (positions_3d self))(i \<mapsto> det_position det) \<and>
     map_of (timestamps self1) = (map_of (timestamps self))(i \<mapsto> frame) \<and>
     map_of (ages self1) = (map_of (ages self))(i \<mapsto> 0) \<and>
     ((fst (match_loop (iou_threshold self) U (det_bbox det) (boxes_2d self) (None, 0)) = Some i \<and>
       (\<exists>box p t.
             map_of (boxes_2d self) i = Some box \<and>
             iou_threshold self < iou (det_bbox det) box \<and>
             (\<forall>k b. map_of (boxes_2d self) k = Some b \<and> k \<notin> U \<longrightarrow>
                iou (det_bbox det) b \<le> iou (det_bbox det) box) \<and>
             map_of (positions_3d self) i = Some p \<and>
             map_of (timestamps self) i = Some t \<and>
             v = vdiv (vsub (det_position det) p) (real_of_int (max 1 (frame - t))) \<and>
             next_id self1 = next_id self)) \<or>
      (fst (match_loop (iou_threshold self) U (det_bbox det) (boxes_2d self) (None, 0)) = None \<and>
       i = next_id self \<and> map_of (boxes_2d self) i = None \<and>
       next_id self1 = next_id self + 1 \<and> v = zeros3))"
    by (elim exE) (erule that)
  from big have
    step: "assign_one frame det self U =
       ((i, \<lparr>det_bbox = det_bbox det, det_class = det_class det,
             det_position = det_position det, det_velocity = v\<rparr>), self1, insert i U)"
    and fresh: "i \<notin> U" and inv1: "tracker_inv self1"
    and used1: "\<forall>u\<in>insert i U. u < next_id self1"
    and par: "iou_threshold self1 = iou_threshold self" "max_age self1 = max_age self"
      "next_id self \<le> next_id self1"
    and look: "map_of (boxes_2d self1) = (map_of (boxes_2d self))(i \<mapsto> det_bbox det)"
      "map_of (positions_3d self1) = (map_of (positions_3d self))(i \<mapsto> det_position det)"
      "map_of (timestamps self1) = (map_of (timestamps self))(i \<mapsto> frame)"
      "map_of (ages self1) = (map_of (ages self))(i \<mapsto> 0)"
    by blast+
  from big have
    "(\<exists>box. map_of (boxes_2d self) i = Some box) \<or> i = next_id self"
    by (elim conjE disjE exE; blast)
  then have origin: "map_of (boxes_2d self) i \<noteq> None \<or> i = next_id self"
    by auto
  let ?e = "(i, \<lparr>det_bbox = det_bbox det, det_class = det_class det,
             det_position = det_position det, det_velocity = v\<rparr>)"
  from Cons.IH [OF inv1 used1] obtain out s' where
    both: "assign_loop frame dets self1 (insert i U) = (out, s', insert i U \<union> fst ` set out) \<and>
      loop_post frame dets self1 (insert i U) out s'"
    by (elim exE) (erule that)
  then have
    loop: "assign_loop frame dets self1 (insert i U) = (out, s', insert i U \<union> fst ` set out)"
    and post: "loop_post frame dets self1 (insert i U) out s'"
    by blast+
  from post have inow: "i \<notin> fst ` set out" by (auto simp: loop_post_def)
  have res: "assign_loop frame (det # dets) self U = (?e # out, s', U \<union> fst ` set (?e # out))"
    by (simp add: step loop)
  have p1: "tracker_inv s'" using post by (simp add: loop_post_def)
  have p2: "\<forall>u\<in>U \<union> fst ` set (?e # out). u < next_id s'"
    using post by (auto simp: loop_post_def)
  have p3: "iou_threshold s' = iou_threshold self \<and> max_age s' = max_age self \<and>
      next_id self \<le> next_id s'"
    using post par by (simp add: loop_post_def)
  have p4: "distinct (map fst (?e # out)) \<and> fst ` set (?e # out) \<inter> U = {}"
    using post fresh inow by (auto simp: loop_post_def)
  have p5: "map (\<lambda>p. detection.truncate (snd p)) (?e # out) = det # dets"
    using post by (simp add: loop_post_def detection.truncate_def)
  have p6: "\<forall>j d. (j, d) \<in> set (?e # out) \<longrightarrow>
         map_of (boxes_2d s') j = Some (det_bbox d) \<and>
         map_of (positions_3d s') j = Some (det_position d) \<and>
         map_of (timestamps s') j = Some frame \<and>
         map_of (ages s') j = Some 0"
  proof (intro allI impI)
    fix j d
    assume "(j, d) \<in> set (?e # out)"
    then consider "(j, d) = ?e" | "(j, d) \<in> set out" by auto
    then show "map_of (boxes_2d s') j = Some (det_bbox d) \<and>
         map_of (positions_3d s') j = Some (det_position d) \<and>
         map_of (timestamps s') j = Some frame \<and>
         map_of (ages s') j = Some 0"
    proof cases
      case 1
      with inow post look show ?thesis by (simp add: loop_post_def)
    next
      case 2
      with post show ?thesis by (simp add: loop_post_def)
    qed
  qed
  have p7: "\<forall>k. k \<notin> fst ` set (?e # out) \<longrightarrow>
         map_of (boxes_2d s') k = map_of (boxes_2d self) k \<and>
         map_of (positions_3d s') k = map_of (positions_3d self) k \<and>
         map_of (timestamps s') k = map_of (timestamps self) k \<and>
         map_of (ages s') k = map_of (ages self) k"
    using post look by (simp add: loop_post_def)
  have p8: "\<forall>j\<in>fst ` set (?e # out). map_of (boxes_2d self) j \<noteq> None \<or> next_id self \<le> j"
  proof
    fix j
    assume "j \<in> fst ` set (?e # out)"
    then consider "j = i" | "j \<noteq> i" "j \<in> fst ` set out" by auto
    then show "map_of (boxes_2d self) j \<noteq> None \<or> next_id self \<le> j"
    proof cases
      case 1
      with origin show ?thesis by auto
    next
      case 2
      from loop_post_origin [OF post 2(2)]
      have "map_of (boxes_2d self1) j \<noteq> None \<or> next_id self1 \<le> j" .
      with 2(1) look(1) par(3) show ?thesis by auto
    qed
  qed
  have "loop_post frame (det # dets) self U (?e # out) s'"
    unfolding loop_post_def using p1 p2 p3 p4 p5 p6 p7 p8 by (simp only: simp_thms)
  with res show ?case by blast
qed


lemma inv_ages_wf: "tracker_inv s \<Longrightarrow> dict_wf (age_unclaimed U (ages s))"
  by (simp add: dict_wf_def keys_age_unclaimed tracker_inv_def)

lemma purge_params:
  "next_id (purge U s) = next_id s \<and> iou_threshold (purge U s) = iou_threshold s \<and>
   max_age (purge U s) = max_age s"
  by (simp add: purge_def Let_def)

lemma active_subset:
  "set (map fst (filter (\<lambda>(oid, age). age \<le> (m::int)) (age_unclaimed U d))) \<subseteq> set (keys d)"
proof -
  have "set (map fst (filter (\<lambda>(oid, age). age \<le> m) (age_unclaimed U d))) \<subseteq>
        set (map fst (age_unclaimed U d))"
    by auto
  then show ?thesis
    using keys_age_unclaimed [of U d] by (simp only: keys_def)
qed

lemma purge_ages:
  assumes "tracker_inv s"
  shows "map_of (ages (purge U s)) k =
     (case map_of (ages s) k of
        None \<Rightarrow> None
      | Some a \<Rightarrow>
          if (if k \<notin> U then a + 1 else a) \<le> max_age s
          then Some (if k \<notin> U then a + 1 else a) else None)"
proof -
  let ?ages1 = "age_unclaimed U (ages s)"
  let ?act = "map fst (filter (\<lambda>(oid, age). age \<le> max_age s) ?ages1)"
  have act: "(k \<in> set ?act) = (\<exists>a. map_of ?ages1 k = Some a \<and> a \<le> max_age s)"
    by (rule active_ids_iff [OF inv_ages_wf [OF assms]])
  have "map_of (ages (purge U s)) k = (if k \<in> set ?act then map_of ?ages1 k else None)"
    by (simp add: purge_def Let_def map_of_restrict_ids del: set_map set_filter)
  also have "\<dots> = (case map_of ?ages1 k of None \<Rightarrow> None
      | Some a \<Rightarrow> if a \<le> max_age s then Some a else None)"
    by (simp only: act) (simp split: option.splits)
  finally show ?thesis
    by (simp add: map_of_age_unclaimed split: option.splits)
qed

lemma purge_keys:
  assumes "tracker_inv s"
  shows "keys (ages (purge U s)) =
           map fst (filter (\<lambda>(oid, age). age \<le> max_age s) (age_unclaimed U (ages s))) \<and>
         keys (boxes_2d (purge U s)) = keys (ages (purge U s)) \<and>
         keys (positions_3d (purge U s)) = keys (ages (purge U s)) \<and>
         keys (timestamps (purge U s)) = keys (ages (purge U s))"
proof -
  let ?act = "map fst (filter (\<lambda>(oid, age). age \<le> max_age s) (age_unclaimed U (ages s)))"
  have sub: "set ?act \<subseteq> set (keys (ages s))"
    by (rule active_subset)
  have all: "filter (\<lambda>k. map_of d k \<noteq> None) ?act = ?act" if "keys d = keys (ages s)" for d :: "(nat, 'v) dict"
    using sub that by (auto simp: map_of_keys_None filter_id_conv)
  have a: "keys (ages (purge U s)) = ?act"
    using all [of "age_unclaimed U (ages s)"]
    by (simp add: purge_def Let_def keys_restrict_ids keys_age_unclaimed)
  have b: "keys (boxes_2d (purge U s)) = ?act"
    using all [of "boxes_2d s"] assms
    by (simp add: purge_def Let_def keys_restrict_ids tracker_inv_def)
  have c: "keys (positions_3d (purge U s)) = ?act"
    using all [of "positions_3d s"] assms
    by (simp add: purge_def Let_def keys_restrict_ids tracker_inv_def)
  have d: "keys (timestamps (purge U s)) = ?act"
    using all [of "timestamps s"] assms
    by (simp add: purge_def Let_def keys_restrict_ids tracker_inv_def)
  show ?thesis using a b c d by simp
qed

lemma purge_inv:
  assumes "tracker_inv s"
  shows "tracker_inv (purge U s)"
proof -
  let ?act = "map fst (filter (\<lambda>(oid, age). age \<le> max_age s) (age_unclaimed U (ages s)))"
  note k = purge_keys [OF assms, of U]
  have sub: "set ?act \<subseteq> set (keys (boxes_2d s))"
    using active_subset [of "max_age s" U "ages s"] assms by (simp only: tracker_inv_def)
  have dist: "distinct ?act"
    using inv_ages_wf [OF assms, of U] by (simp add: dict_wf_def keys_def distinct_map_filter)
  have below: "list_all (\<lambda>k. k < next_id s) ?act"
    using sub assms by (auto simp: tracker_inv_def list_all_iff)
  show ?thesis
    using k dist below by (simp add: tracker_inv_def purge_params)
qed

lemma purge_boxes:
  "map_of (boxes_2d (purge U s)) k =
     (if k \<in> set (keys (ages (purge U s))) then map_of (boxes_2d s) k else None)"
  if "tracker_inv s"
  using purge_keys [OF that, of U] by (simp add: purge_def Let_def map_of_restrict_ids)

lemma purge_positions:
  "map_of (positions_3d (purge U s)) k =
     (if k \<in> set (keys (ages (purge U s))) then map_of (positions_3d s) k else None)"
  if "tracker_inv s"
  using purge_keys [OF that, of U] by (simp add: purge_def Let_def map_of_restrict_ids)

lemma purge_timestamps:
  "map_of (timestamps (purge U s)) k =
     (if k \<in> set (keys (ages (purge U s))) then map_of (timestamps s) k else None)"
  if "tracker_inv s"
  using purge_keys [OF that, of U] by (simp add: purge_def Let_def map_of_restrict_ids)

lemma assign_ids_loop:
  assumes "tracker_inv self"
  shows "\<exists>out s1. assign_loop frame dets self {} = (out, s1, fst ` set out) \<and>
           loop_post frame dets self {} out s1 \<and>
           assign_ids self dets frame = (out, purge (fst ` set out) s1)"
proof -
  from assign_loop_spec [OF assms, of "{}" frame dets] obtain out s1 where
    "assign_loop frame dets self {} = (out, s1, fst ` set out)"
    "loop_post frame dets self {} out s1"
    by auto
  then show ?thesis by (simp add: assign_ids_def)
qed

lemma assign_ids_unclaimed:
  assumes "tracker_inv self"
  shows "\<exists>out self'. assign_ids self dets frame = (out, self') \<and> tracker_inv self' \<and>
     max_age self' = max_age self \<and> iou_threshold self' = iou_threshold self \<and>
     next_id self \<le> next_id self' \<and>
     (\<forall>k. k < next_id self \<and> map_of (ages self) k = None \<longrightarrow> k \<notin> fst ` set out) \<and>
     (\<forall>k. k \<notin> fst ` set out \<longrightarrow>
        map_of (ages self') k =
          (case map_of (ages self) k of
             None \<Rightarrow> None
           | Some a \<Rightarrow> if a + 1 \<le> max_age self then Some (a + 1) else None)) \<and>
     (\<forall>k a. map_of (ages self') k = Some a \<longrightarrow> a \<le> max_age self) \<and>
     (\<forall>k. map_of (ages self') k = None \<longrightarrow>
        map_of (boxes_2d self') k = None \<and> map_of (positions_3d self') k = None \<and>
        map_of (timestamps self') k = None)"
proof -
  from assign_ids_loop [OF assms, of frame dets] obtain out s1 where
    res: "assign_ids self dets frame = (out, purge (fst ` set out) s1)"
    and post: "loop_post frame dets self {} out s1"
    by blast
  let ?s = "purge (fst ` set out) s1"
  from post have inv1: "tracker_inv s1" and ma: "max_age s1 = max_age self"
    and th: "iou_threshold s1 = iou_threshold self" and nx: "next_id self \<le> next_id s1"
    and same: "\<And>k. k \<notin> fst ` set out \<Longrightarrow> map_of (ages s1) k = map_of (ages self) k"
    by (simp_all add: loop_post_def)
  have inv2: "tracker_inv ?s" using inv1 by (rule purge_inv)
  have org: "\<forall>i\<in>fst ` set out. map_of (boxes_2d self) i \<noteq> None \<or> next_id self \<le> i"
    using loop_post_origin [OF post] by blast
  have z: "\<forall>k. k < next_id self \<and> map_of (ages self) k = None \<longrightarrow> k \<notin> fst ` set out"
  proof (intro allI impI notI)
    fix k
    assume k: "k < next_id self \<and> map_of (ages self) k = None" and "k \<in> fst ` set out"
    with org have "map_of (boxes_2d self) k \<noteq> None \<or> next_id self \<le> k" by blast
    with k assms show False by (simp add: inv_lookup_ages)
  qed
  have a: "\<forall>k. k \<notin> fst ` set out \<longrightarrow>
        map_of (ages ?s) k =
          (case map_of (ages self) k of
             None \<Rightarrow> None
           | Some a \<Rightarrow> if a + 1 \<le> max_age self then Some (a + 1) else None)"
    by (simp add: purge_ages [OF inv1] same ma split: option.splits)
  have b: "\<forall>k a. map_of (ages ?s) k = Some a \<longrightarrow> a \<le> max_age self"
    by (auto simp: purge_ages [OF inv1] ma split: option.splits if_splits)
  have c: "\<forall>k. map_of (ages ?s) k = None \<longrightarrow>
        map_of (boxes_2d ?s) k = None \<and> map_of (positions_3d ?s) k = None \<and>
        map_of (timestamps ?s) k = None"
    using inv2
    by (simp add: inv_lookup_positions inv_lookup_timestamps inv_lookup_ages)
  show ?thesis
    using res inv2 z a b c ma th nx by (simp add: purge_params)
qed

lemma run_frames_unmatched:
  assumes "tracker_inv self" and "run_frames self fs = (outs, s2)"
    and "\<forall>out\<in>set outs. k \<notin> fst ` set out" and "fs \<noteq> []"
  shows "tracker_inv s2 \<and> max_age s2 = max_age self \<and>
     map_of (ages s2) k =
       (case map_of (ages self) k of
          None \<Rightarrow> None
        | Some a \<Rightarrow> if a + int (length fs) \<le> max_age self
                    then Some (a + int (length fs)) else None)"
  using assms
proof (induction fs arbitrary: self outs s2)
  case Nil
  then show ?case by simp
next
  case (Cons f fs)
  obtain dets frame where f: "f = (dets, frame)" by (cases f)
  from assign_ids_unclaimed [OF Cons.prems(1), of dets frame] obtain out s1 where
    big: "assign_ids self dets frame = (out, s1) \<and> tracker_inv s1 \<and>
     max_age s1 = max_age self \<and> iou_threshold s1 = iou_threshold self \<and>
     next_id self \<le> next_id s1 \<and>
     (\<forall>k. k < next_id self \<and> map_of (ages self) k = None \<longrightarrow> k \<notin> fst ` set out) \<and>
     (\<forall>k. k \<notin> fst ` set out \<longrightarrow>
        map_of (ages s1) k =
          (case map_of (ages self) k of
             None \<Rightarrow> None
           | Some a \<Rightarrow> if a + 1 \<le> max_age self then Some (a + 1) else None)) \<and>
     (\<forall>k a. map_of (ages s1) k = Some a \<longrightarrow> a \<le> max_age self) \<and>
     (\<forall>k. map_of (ages s1) k = None \<longrightarrow>
        map_of (boxes_2d s1) k = None \<and> map_of (positions_3d s1) k = None \<and>
        map_of (timestamps s1) k = None)"
    by (elim exE) (erule that)
  then have call: "assign_ids self dets frame = (out, s1)" and inv1: "tracker_inv s1"
    and ma: "max_age s1 = max_age self"
    and age: "\<forall>k. k \<notin> fst ` set out \<longrightarrow>
        map_of (ages s1) k =
          (case map_of (ages self) k of
             None \<Rightarrow> None
           | Some a \<Rightarrow> if a + 1 \<le> max_age self then Some (a + 1) else None)"
    by blast+
  obtain outs1 s3 where rest: "run_frames s1 fs = (outs1, s3)"
    by (cases "run_frames s1 fs")
  from Cons.prems(2) f call rest have eq: "outs = out # outs1" "s2 = s3"
    by simp_all
  from Cons.prems(3) eq have un: "k \<notin> fst ` set out" and un1: "\<forall>out\<in>set outs1. k \<notin> fst ` set out"
    by simp_all
  from age un have one: "map_of (ages s1) k =
          (case map_of (ages self) k of
             None \<Rightarrow> None
           | Some a \<Rightarrow> if a + 1 \<le> max_age self then Some (a + 1) else None)"
    by blast
  show ?case
  proof (cases "fs = []")
    case True
    with rest eq inv1 ma one show ?thesis by (simp split: option.splits)
  next
    case False
    from Cons.IH [OF inv1 rest un1 False] eq ma one show ?thesis
      by (auto split: option.splits)
  qed
qed

text \<open>
  Claim C3. In a call of \<open>assign_ids\<close> on a tracker whose four dictionaries are in step,
  every id that is not in the returned list has its age raised by exactly one, and is
  removed when the new age exceeds \<open>max_age\<close>; afterwards every age in the tracker is at
  most \<open>max_age\<close>, and an id without an age has no box, no position and no time stamp
  either. An id that is absent and below the counter is never returned again. Over
  several calls: an id of age \<open>a\<close> that is returned by none of \<open>n\<close> successive calls, with
  \<open>a + n > max_age\<close>, is in none of the four dictionaries afterwards.
\<close>

theorem ageing_and_purge:
  assumes "tracker_inv self"
  shows
    "(\<exists>out self'. assign_ids self dets frame = (out, self') \<and> tracker_inv self' \<and>
        max_age self' = max_age self \<and> iou_threshold self' = iou_threshold self \<and>
        next_id self \<le> next_id self' \<and>
        (\<forall>k. k < next_id self \<and> map_of (ages self) k = None \<longrightarrow> k \<notin> fst ` set out) \<and>
        (\<forall>k. k \<notin> fst ` set out \<longrightarrow>
           map_of (ages self') k =
             (case map_of (ages self) k of
                None \<Rightarrow> None
              | Some a \<Rightarrow> if a + 1 \<le> max_age self then Some (a + 1) else None)) \<and>
        (\<forall>k a. map_of (ages self') k = Some a \<longrightarrow> a \<le> max_age self) \<and>
        (\<forall>k. map_of (ages self') k = None \<longrightarrow>
           map_of (boxes_2d self') k = None \<and> map_of (positions_3d self') k = None \<and>
           map_of (timestamps self') k = None)) \<and>
     (\<forall>outs s2 k a.
        run_frames self fs = (outs, s2) \<and> (\<forall>out\<in>set outs. k \<notin> fst ` set out) \<and>
        map_of (ages self) k = Some a \<and> max_age self < a + int (length fs) \<and> fs \<noteq> [] \<longrightarrow>
        map_of (ages s2) k = None \<and> map_of (boxes_2d s2) k = None \<and>
        map_of (positions_3d s2) k = None \<and> map_of (timestamps s2) k = None)"
proof (rule conjI)
  show "\<exists>out self'. assign_ids self dets frame = (out, self') \<and> tracker_inv self' \<and>
        max_age self' = max_age self \<and> iou_threshold self' = iou_threshold self \<and>
        next_id self \<le> next_id self' \<and>
        (\<forall>k. k < next_id self \<and> map_of (ages self) k = None \<longrightarrow> k \<notin> fst ` set out) \<and>
        (\<forall>k. k \<notin> fst ` set out \<longrightarrow>
           map_of (ages self') k =
             (case map_of (ages self) k of
                None \<Rightarrow> None
              | Some a \<Rightarrow> if a + 1 \<le> max_age self then Some (a + 1) else None)) \<and>
        (\<forall>k a. map_of (ages self') k = Some a \<longrightarrow> a \<le> max_age self) \<and>
        (\<forall>k. map_of (ages self') k = None \<longrightarrow>
           map_of (boxes_2d self') k = None \<and> map_of (positions_3d self') k = None \<and>
           map_of (timestamps self') k = None)"
    by (rule assign_ids_unclaimed [OF assms])
next
  show "\<forall>outs s2 k a.
        run_frames self fs = (outs, s2) \<and> (\<forall>out\<in>set outs. k \<notin> fst ` set out) \<and>
        map_of (ages self) k = Some a \<and> max_age self < a + int (length fs) \<and> fs \<noteq> [] \<longrightarrow>
        map_of (ages s2) k = None \<and> map_of (boxes_2d s2) k = None \<and>
        map_of (positions_3d s2) k = None \<and> map_of (timestamps s2) k = None"
  proof (intro allI impI, elim conjE)
    fix outs s2 k a
    assume run: "run_frames self fs = (outs, s2)" and un: "\<forall>out\<in>set outs. k \<notin> fst ` set out"
      and a: "map_of (ages self) k = Some a" and late: "max_age self < a + int (length fs)"
      and ne: "fs \<noteq> []"
    from run_frames_unmatched [OF assms run un ne] a late
    have inv2: "tracker_inv s2" and gone: "map_of (ages s2) k = None"
      by simp_all
    from inv2 gone show "map_of (ages s2) k = None \<and> map_of (boxes_2d s2) k = None \<and>
        map_of (positions_3d s2) k = None \<and> map_of (timestamps s2) k = None"
      by (simp add: inv_lookup_positions inv_lookup_timestamps inv_lookup_ages)
  qed
qed

theorem ageing_and_purge_witness:
  "tracker_inv \<lparr>next_id = 2, boxes_2d = [(0, (0, 0, 10, 10)), (1, (20, 20, 30, 30))],
       positions_3d = [(0, (0, 0, 5)), (1, (1, 0, 3))], timestamps = [(0, 1), (1, 1)],
       ages = [(0, 30), (1, 3)], iou_threshold = 3 / 10, max_age = 30\<rparr> \<and>
   assign_ids \<lparr>next_id = 2, boxes_2d = [(0, (0, 0, 10, 10)), (1, (20, 20, 30, 30))],
       positions_3d = [(0, (0, 0, 5)), (1, (1, 0, 3))], timestamps = [(0, 1), (1, 1)],
       ages = [(0, 30), (1, 3)], iou_threshold = 3 / 10, max_age = 30\<rparr> [] 2 =
     ([], \<lparr>next_id = 2, boxes_2d = [(1, (20, 20, 30, 30))],
       positions_3d = [(1, (1, 0, 3))], timestamps = [(1, 1)],
       ages = [(1, 4)], iou_threshold = 3 / 10, max_age = 30\<rparr>) \<and>
   ages (snd (run_frames \<lparr>next_id = 2, boxes_2d = [(0, (0, 0, 10, 10)), (1, (20, 20, 30, 30))],
       positions_3d = [(0, (0, 0, 5)), (1, (1, 0, 3))], timestamps = [(0, 1), (1, 1)],
       ages = [(0, 30), (1, 3)], iou_threshold = 3 / 10, max_age = 30\<rparr> [([], 2), ([], 3)])) = [(1, 5)]"
  using ageing_and_purge [of
     "\<lparr>next_id = 2, boxes_2d = [(0, (0, 0, 10, 10)), (1, (20, 20, 30, 30))],
       positions_3d = [(0, (0, 0, 5)), (1, (1, 0, 3))], timestamps = [(0, 1), (1, 1)],
       ages = [(0, 30), (1, 3)], iou_threshold = 3 / 10, max_age = 30\<rparr>" "[]" 2 "[([], 2), ([], 3)]"]
  by (simp add: tracker_inv_def keys_def assign_ids_def purge_def age_unclaimed_def
      restrict_ids_def List.map_filter_simps Let_def)

lemma assign_one_spec:
  assumes inv: "tracker_inv self" and thr: "0 \<le> iou_threshold self"
    and used: "\<forall>u\<in>U. u < next_id self"
  shows "\<exists>i v self1.
     assign_one frame det self U =
       ((i, \<lparr>det_bbox = det_bbox det, det_class = det_class det,
             det_position = det_position det, det_velocity = v\<rparr>), self1, insert i U) \<and>
     assign_loop frame (det # dets) self U =
       (case assign_loop frame dets self1 (insert i U) of
          (assigned, self2, used2) \<Rightarrow>
            ((i, \<lparr>det_bbox = det_bbox det, det_class = det_class det,
                  det_position = det_position det, det_velocity = v\<rparr>) # assigned,
             self2, used2)) \<and>
     i \<notin> U \<and> tracker_inv self1 \<and> (\<forall>u\<in>insert i U. u < next_id self1) \<and>
     iou_threshold self1 = iou_threshold self \<and> max_age self1 = max_age self \<and>
     next_id self \<le> next_id self1 \<and>
     map_of (boxes_2d self1) = (map_of (boxes_2d self))(i \<mapsto> det_bbox det) \<and>
     map_of (positions_3d self1) = (map_of (positions_3d self))(i \<mapsto> det_position det) \<and>
     map_of (timestamps self1) = (map_of (timestamps self))(i \<mapsto> frame) \<and>
     map_of (ages self1) = (map_of (ages self))(i \<mapsto> 0) \<and>
     (if \<exists>k box. map_of (boxes_2d self) k = Some box \<and> k \<notin> U \<and>
           iou_threshold self < iou (det_bbox det) box
      then \<exists>box p t.
             map_of (boxes_2d self) i = Some box \<and>
             iou_threshold self < iou (det_bbox det) box \<and>
             (\<forall>k b. map_of (boxes_2d self) k = Some b \<and> k \<notin> U \<longrightarrow>
                iou (det_bbox det) b \<le> iou (det_bbox det) box) \<and>
             map_of (positions_3d self) i = Some p \<and>
             map_of (timestamps self) i = Some t \<and>
             v = vdiv (vsub (det_position det) p) (real_of_int (max 1 (frame - t))) \<and>
             next_id self1 = next_id self
      else i = next_id self \<and> map_of (boxes_2d self) i = None \<and>
           next_id self1 = next_id self + 1 \<and> v = zeros3)"
proof -
  from assign_one_cases [OF inv used, of frame det]
  obtain i v self1 where big:
    "assign_one frame det self U =
       ((i, \<lparr>det_bbox = det_bbox det, det_class = det_class det,
             det_position = det_position det, det_velocity = v\<rparr>), self1, insert i U) \<and>
     i \<notin> U \<and> tracker_inv self1 \<and> (\<forall>u\<in>insert i U. u < next_id self1) \<and>
     iou_threshold self1 = iou_threshold self \<and> max_age self1 = max_age self \<and>
     next_id self \<le> next_id self1 \<and>
     map_of (boxes_2d self1) = (map_of (boxes_2d self))(i \<mapsto> det_bbox det) \<and>
     map_of (positions_3d self1) = (map_of (positions_3d self))(i \<mapsto> det_position det) \<and>
     map_of (timestamps self1) = (map_of (timestamps self))(i \<mapsto> frame) \<and>
     map_of (ages self1) = (map_of (ages self))(i \<mapsto> 0) \<and>
     ((fst (match_loop (iou_threshold self) U (det_bbox det) (boxes_2d self) (None, 0)) = Some i \<and>
       (\<exists>box p t.
             map_of (boxes_2d self) i = Some box \<and>
             iou_threshold self < iou (det_bbox det) box \<and>
             (\<forall>k b. map_of (boxes_2d self) k = Some b \<and> k \<notin> U \<longrightarrow>
                iou (det_bbox det) b \<le> iou (det_bbox det) box) \<and>
             map_of (positions_3d self) i = Some p \<and>
             map_of (timestamps self) i = Some t \<and>
             v = vdiv (vsub (det_position det) p) (real_of_int (max 1 (frame - t))) \<and>
             next_id self1 = next_id self)) \<or>
      (fst (match_loop (iou_threshold self) U (det_bbox det) (boxes_2d self) (None, 0)) = None \<and>
       i = next_id self \<and> map_of (boxes_2d self) i = None \<and>
           next_id self1 = next_id self + 1 \<and> v = zeros3))"
    by (elim exE) (erule that)
  then have step: "assign_one frame det self U =
       ((i, \<lparr>det_bbox = det_bbox det, det_class = det_class det,
             det_position = det_position det, det_velocity = v\<rparr>), self1, insert i U)"
    and common: "i \<notin> U \<and> tracker_inv self1 \<and> (\<forall>u\<in>insert i U. u < next_id self1) \<and>
     iou_threshold self1 = iou_threshold self \<and> max_age self1 = max_age self \<and>
     next_id self \<le> next_id self1 \<and>
     map_of (boxes_2d self1) = (map_of (boxes_2d self))(i \<mapsto> det_bbox det) \<and>
     map_of (positions_3d self1) = (map_of (positions_3d self))(i \<mapsto> det_position det) \<and>
     map_of (timestamps self1) = (map_of (timestamps self))(i \<mapsto> frame) \<and>
     map_of (ages self1) = (map_of (ages self))(i \<mapsto> 0)"
    by blast+
  from big have alt:
    "(fst (match_loop (iou_threshold self) U (det_bbox det) (boxes_2d self) (None, 0)) = Some i \<and>
       (\<exists>box p t.
             map_of (boxes_2d self) i = Some box \<and>
             iou_threshold self < iou (det_bbox det) box \<and>
             (\<forall>k b. map_of (boxes_2d self) k = Some b \<and> k \<notin> U \<longrightarrow>
                iou (det_bbox det) b \<le> iou (det_bbox det) box) \<and>
             map_of (positions_3d self) i = Some p \<and>
             map_of (timestamps self) i = Some t \<and>
             v = vdiv (vsub (det_position det) p) (real_of_int (max 1 (frame - t))) \<and>
             next_id self1 = next_id self)) \<or>
      (fst (match_loop (iou_threshold self) U (det_bbox det) (boxes_2d self) (None, 0)) = None \<and>
       i = next_id self \<and> map_of (boxes_2d self) i = None \<and>
           next_id self1 = next_id self + 1 \<and> v = zeros3)"
    by blast
  have ifpart: "(if \<exists>k box. map_of (boxes_2d self) k = Some box \<and> k \<notin> U \<and>
           iou_threshold self < iou (det_bbox det) box
      then \<exists>box p t.
             map_of (boxes_2d self) i = Some box \<and>
             iou_threshold self < iou (det_bbox det) box \<and>
             (\<forall>k b. map_of (boxes_2d self) k = Some b \<and> k \<notin> U \<longrightarrow>
                iou (det_bbox det) b \<le> iou (det_bbox det) box) \<and>
             map_of (positions_3d self) i = Some p \<and>
             map_of (timestamps self) i = Some t \<and>
             v = vdiv (vsub (det_position det) p) (real_of_int (max 1 (frame - t))) \<and>
             next_id self1 = next_id self
      else i = next_id self \<and> map_of (boxes_2d self) i = None \<and>
           next_id self1 = next_id self + 1 \<and> v = zeros3)"
    using alt
  proof (elim disjE conjE)
    assume m: "\<exists>box p t.
             map_of (boxes_2d self) i = Some box \<and>
             iou_threshold self < iou (det_bbox det) box \<and>
             (\<forall>k b. map_of (boxes_2d self) k = Some b \<and> k \<notin> U \<longrightarrow>
                iou (det_bbox det) b \<le> iou (det_bbox det) box) \<and>
             map_of (positions_3d self) i = Some p \<and>
             map_of (timestamps self) i = Some t \<and>
             v = vdiv (vsub (det_position det) p) (real_of_int (max 1 (frame - t))) \<and>
             next_id self1 = next_id self"
    then have "\<exists>k box. map_of (boxes_2d self) k = Some box \<and> k \<notin> U \<and>
           iou_threshold self < iou (det_bbox det) box"
      using common by blast
    with m show ?thesis by (simp only: if_True)
  next
    assume none: "fst (match_loop (iou_threshold self) U (det_bbox det) (boxes_2d self) (None, 0)) = None"
      and n: "i = next_id self" "map_of (boxes_2d self) i = None"
        "next_id self1 = next_id self + 1" "v = zeros3"
    have "\<not> (\<exists>k box. map_of (boxes_2d self) k = Some box \<and> k \<notin> U \<and>
           iou_threshold self < iou (det_bbox det) box)"
      using match_none [OF thr none] by blast
    with n show ?thesis by (simp only: if_False simp_thms)
  qed
  have loop_eq: "assign_loop frame (det # dets) self U =
       (case assign_loop frame dets self1 (insert i U) of
          (assigned, self2, used2) \<Rightarrow>
            ((i, \<lparr>det_bbox = det_bbox det, det_class = det_class det,
                  det_position = det_position det, det_velocity = v\<rparr>) # assigned,
             self2, used2))"
    by (simp add: step)
  from step loop_eq common ifpart
  have "assign_one frame det self U =
       ((i, \<lparr>det_bbox = det_bbox det, det_class = det_class det,
             det_position = det_position det, det_velocity = v\<rparr>), self1, insert i U) \<and>
     assign_loop frame (det # dets) self U =
       (case assign_loop frame dets self1 (insert i U) of
          (assigned, self2, used2) \<Rightarrow>
            ((i, \<lparr>det_bbox = det_bbox det, det_class = det_class det,
                  det_position = det_position det, det_velocity = v\<rparr>) # assigned,
             self2, used2)) \<and>
     i \<notin> U \<and> tracker_inv self1 \<and> (\<forall>u\<in>insert i U. u < next_id self1) \<and>
     iou_threshold self1 = iou_threshold self \<and> max_age self1 = max_age self \<and>
     next_id self \<le> next_id self1 \<and>
     map_of (boxes_2d self1) = (map_of (boxes_2d self))(i \<mapsto> det_bbox det) \<and>
     map_of (positions_3d self1) = (map_of (positions_3d self))(i \<mapsto> det_position det) \<and>
     map_of (timestamps self1) = (map_of (timestamps self))(i \<mapsto> frame) \<and>
     map_of (ages self1) = (map_of (ages self))(i \<mapsto> 0) \<and>
     (if \<exists>k box. map_of (boxes_2d self) k = Some box \<and> k \<notin> U \<and>
           iou_threshold self < iou (det_bbox det) box
      then \<exists>box p t.
             map_of (boxes_2d self) i = Some box \<and>
             iou_threshold self < iou (det_bbox det) box \<and>
             (\<forall>k b. map_of (boxes_2d self) k = Some b \<and> k \<notin> U \<longrightarrow>
                iou (det_bbox det) b \<le> iou (det_bbox det) box) \<and>
             map_of (positions_3d self) i = Some p \<and>
             map_of (timestamps self) i = Some t \<and>
             v = vdiv (vsub (det_position det) p) (real_of_int (max 1 (frame - t))) \<and>
             next_id self1 = next_id self
      else i = next_id self \<and> map_of (boxes_2d self) i = None \<and>
           next_id self1 = next_id self + 1 \<and> v = zeros3)"
    by (intro conjI) blast+
  then show ?thesis by (intro exI)
qed

lemma assign_ids_result:
  assumes "tracker_inv self"
  shows "\<exists>out self'.
        assign_ids self detections frame = (out, self') \<and>
        fst (assign_loop frame detections self {}) = out \<and>
        map (\<lambda>p. detection.truncate (snd p)) out = detections \<and>
        distinct (map fst out) \<and>
        (0 \<le> max_age self \<longrightarrow>
           (\<forall>i d. (i, d) \<in> set out \<longrightarrow>
              map_of (boxes_2d self') i = Some (det_bbox d) \<and>
              map_of (positions_3d self') i = Some (det_position d) \<and>
              map_of (timestamps self') i = Some frame \<and>
              map_of (ages self') i = Some 0))"
proof -
  from assign_ids_loop [OF assms, of frame detections] obtain out s1 where
    big: "assign_loop frame detections self {} = (out, s1, fst ` set out) \<and>
           loop_post frame detections self {} out s1 \<and>
           assign_ids self detections frame = (out, purge (fst ` set out) s1)"
    by (elim exE) (erule that)
  then have loop: "assign_loop frame detections self {} = (out, s1, fst ` set out)"
    and post: "loop_post frame detections self {} out s1"
    and res: "assign_ids self detections frame = (out, purge (fst ` set out) s1)"
    by blast+
  let ?s = "purge (fst ` set out) s1"
  from post have inv1: "tracker_inv s1" and ma: "max_age s1 = max_age self"
    and order: "map (\<lambda>p. detection.truncate (snd p)) out = detections"
    and dist: "distinct (map fst out)"
    and stored: "\<And>i d. (i, d) \<in> set out \<Longrightarrow>
         map_of (boxes_2d s1) i = Some (det_bbox d) \<and>
         map_of (positions_3d s1) i = Some (det_position d) \<and>
         map_of (timestamps s1) i = Some frame \<and>
         map_of (ages s1) i = Some 0"
    by (simp_all add: loop_post_def)
  have kept: "map_of (boxes_2d ?s) i = Some (det_bbox d) \<and>
              map_of (positions_3d ?s) i = Some (det_position d) \<and>
              map_of (timestamps ?s) i = Some frame \<and>
              map_of (ages ?s) i = Some 0"
    if pos: "0 \<le> max_age self" and mem: "(i, d) \<in> set out" for i d
  proof -
    from mem have claimed: "i \<in> fst ` set out" by (rule image_eqI [rotated]) simp
    from stored [OF mem] pos ma claimed have age: "map_of (ages ?s) i = Some 0"
      by (simp add: purge_ages [OF inv1])
    then have "i \<in> set (keys (ages ?s))"
      using map_of_keys_None [of "ages ?s" i] by simp
    with stored [OF mem] age show ?thesis
      by (simp add: purge_boxes [OF inv1] purge_positions [OF inv1] purge_timestamps [OF inv1])
  qed
  from loop have first: "fst (assign_loop frame detections self {}) = out" by simp
  have "assign_ids self detections frame = (out, ?s) \<and>
        fst (assign_loop frame detections self {}) = out \<and>
        map (\<lambda>p. detection.truncate (snd p)) out = detections \<and>
        distinct (map fst out) \<and>
        (0 \<le> max_age self \<longrightarrow>
           (\<forall>i d. (i, d) \<in> set out \<longrightarrow>
              map_of (boxes_2d ?s) i = Some (det_bbox d) \<and>
              map_of (positions_3d ?s) i = Some (det_position d) \<and>
              map_of (timestamps ?s) i = Some frame \<and>
              map_of (ages ?s) i = Some 0))"
    using res first order dist kept by blast
  then show ?thesis by (intro exI)
qed

text \<open>
  Claim C1. The loop takes the detections in the order of the input, and the returned
  list holds them in that order, each with an id and a velocity. For one detection, on a
  tracker whose dictionaries are in step, with a threshold that is not negative (0.3 by
  default) and a set \<open>U\<close> of ids claimed so far: if some track outside \<open>U\<close> has an IoU
  with the detection above the threshold, the detection gets the id of such a track
  whose IoU is the highest among all tracks outside \<open>U\<close>, and the velocity
  \<open>(new position - old position) / max(1, frame - last frame seen)\<close>; otherwise it gets
  the value of the counter, which is the id of no track and is not in \<open>U\<close>, the counter
  goes up by one, and the velocity is zero. In both cases the id joins \<open>U\<close>, its box,
  position and frame are stored, its age is set to 0, and no other id is touched. After
  the call (with \<open>max_age\<close> not negative) every returned id holds the box and position of
  its detection, the current frame, and the age 0.
\<close>

theorem assign_ids_matching:
  assumes "tracker_inv self" and "0 \<le> iou_threshold self" and "\<forall>u\<in>U. u < next_id self"
  shows
    "(\<exists>i v self1.
     assign_one frame det self U =
       ((i, \<lparr>det_bbox = det_bbox det, det_class = det_class det,
             det_position = det_position det, det_velocity = v\<rparr>), self1, insert i U) \<and>
     assign_loop frame (det # dets) self U =
       (case assign_loop frame dets self1 (insert i U) of
          (assigned, self2, used2) \<Rightarrow>
            ((i, \<lparr>det_bbox = det_bbox det, det_class = det_class det,
                  det_position = det_position det, det_velocity = v\<rparr>) # assigned,
             self2, used2)) \<and>
     i \<notin> U \<and> tracker_inv self1 \<and> (\<forall>u\<in>insert i U. u < next_id self1) \<and>
     iou_threshold self1 = iou_threshold self \<and> max_age self1 = max_age self \<and>
     next_id self \<le> next_id self1 \<and>
     map_of (boxes_2d self1) = (map_of (boxes_2d self))(i \<mapsto> det_bbox det) \<and>
     map_of (positions_3d self1) = (map_of (positions_3d self))(i \<mapsto> det_position det) \<and>
     map_of (timestamps self1) = (map_of (timestamps self))(i \<mapsto> frame) \<and>
     map_of (ages self1) = (map_of (ages self))(i \<mapsto> 0) \<and>
     (if \<exists>k box. map_of (boxes_2d self) k = Some box \<and> k \<notin> U \<and>
           iou_threshold self < iou (det_bbox det) box
      then \<exists>box p t.
             map_of (boxes_2d self) i = Some box \<and>
             iou_threshold self < iou (det_bbox det) box \<and>
             (\<forall>k b. map_of (boxes_2d self) k = Some b \<and> k \<notin> U \<longrightarrow>
                iou (det_bbox det) b \<le> iou (det_bbox det) box) \<and>
             map_of (positions_3d self) i = Some p \<and>
             map_of (timestamps self) i = Some t \<and>
             v = vdiv (vsub (det_position det) p) (real_of_int (max 1 (frame - t))) \<and>
             next_id self1 = next_id self
      else i = next_id self \<and> map_of (boxes_2d self) i = None \<and>
           next_id self1 = next_id self + 1 \<and> v = zeros3)) \<and>
     (\<exists>out self'.
        assign_ids self detections frame = (out, self') \<and>
        fst (assign_loop frame detections self {}) = out \<and>
        map (\<lambda>p. detection.truncate (snd p)) out = detections \<and>
        distinct (map fst out) \<and>
        (0 \<le> max_age self \<longrightarrow>
           (\<forall>i d. (i, d) \<in> set out \<longrightarrow>
              map_of (boxes_2d self') i = Some (det_bbox d) \<and>
              map_of (positions_3d self') i = Some (det_position d) \<and>
              map_of (timestamps self') i = Some frame \<and>
              map_of (ages self') i = Some 0)))"
  using assign_one_spec [OF assms, of frame det dets]
    assign_ids_result [OF assms(1), of detections frame]
  by (rule conjI)

theorem assign_ids_matching_witness:
  "tracker_inv \<lparr>next_id = 1, boxes_2d = [(0, (0, 0, 10, 10))], positions_3d = [(0, (0, 0, 5))],
       timestamps = [(0, 1)], ages = [(0, 2)], iou_threshold = 3 / 10, max_age = 30\<rparr> \<and>
   0 \<le> iou_threshold \<lparr>next_id = 1, boxes_2d = [(0, (0, 0, 10, 10))], positions_3d = [(0, (0, 0, 5))],
       timestamps = [(0, 1)], ages = [(0, 2)], iou_threshold = 3 / 10, max_age = 30\<rparr> \<and>
   assign_ids \<lparr>next_id = 1, boxes_2d = [(0, (0, 0, 10, 10))], positions_3d = [(0, (0, 0, 5))],
       timestamps = [(0, 1)], ages = [(0, 2)], iou_threshold = 3 / 10, max_age = 30\<rparr>
     [\<lparr>det_bbox = (0, 0, 10, 10), det_class = ''car'', det_position = (0, 0, 4)\<rparr>, \<lparr>det_bbox = (20, 20, 30, 30), det_class = ''dog'', det_position = (1, 0, 3)\<rparr>] 3 =
     ([(0, \<lparr>det_bbox = (0, 0, 10, 10), det_class = ''car'', det_position = (0, 0, 4),
           det_velocity = (0, 0, - 1 / 2)\<rparr>),
       (1, \<lparr>det_bbox = (20, 20, 30, 30), det_class = ''dog'', det_position = (1, 0, 3),
           det_velocity = (0, 0, 0)\<rparr>)],
      \<lparr>next_id = 2, boxes_2d = [(0, (0, 0, 10, 10)), (1, (20, 20, 30, 30))],
       positions_3d = [(0, (0, 0, 4)), (1, (1, 0, 3))], timestamps = [(0, 3), (1, 3)],
       ages = [(0, 0), (1, 0)], iou_threshold = 3 / 10, max_age = 30\<rparr>)"
  using assign_ids_matching [of
     "\<lparr>next_id = 1, boxes_2d = [(0, (0, 0, 10, 10))], positions_3d = [(0, (0, 0, 5))],
       timestamps = [(0, 1)], ages = [(0, 2)], iou_threshold = 3 / 10, max_age = 30\<rparr>" "{}" 3
     "\<lparr>det_bbox = (0, 0, 10, 10), det_class = ''car'', det_position = (0, 0, 4)\<rparr>" "[\<lparr>det_bbox = (20, 20, 30, 30), det_class = ''dog'', det_position = (1, 0, 3)\<rparr>]"
     "[\<lparr>det_bbox = (0, 0, 10, 10), det_class = ''car'', det_position = (0, 0, 4)\<rparr>, \<lparr>det_bbox = (20, 20, 30, 30), det_class = ''dog'', det_position = (1, 0, 3)\<rparr>]"]
  by (simp add: tracker_inv_def keys_def assign_ids_def assign_one_def match_step_def
      store_track_def purge_def age_unclaimed_def restrict_ids_def List.map_filter_simps
      zeros3_def Let_def)

end
